theory Spec2Isabelle
  imports Main "HOL-Library.AList"
begin

section \<open>Values of the pipeline\<close>

text \<open>
  The documents that \<^verbatim>\<open>upload_dynamic\<close> receives are what \<^verbatim>\<open>r.json()\<close> returned:
  \<^verbatim>\<open>None\<close>, \<^verbatim>\<open>bool\<close>, \<^verbatim>\<open>int\<close>, \<^verbatim>\<open>str\<close>, \<^verbatim>\<open>list\<close> and \<^verbatim>\<open>dict\<close> with \<^verbatim>\<open>str\<close> keys.
  A \<^verbatim>\<open>dict\<close> keeps its insertion order, so it is an association list; a well-formed one
  has no key twice (\<open>wf_json\<close> below). Strings are the bytes of their UTF-8 encoding.
  Numbers are Python's unbounded integers; floating-point numbers are not part of the
  embedding.
\<close>

datatype json =
    JNull
  | JBool bool
  | JInt int
  | JStr string
  | JArr "json list"
  | JObj "(string \<times> json) list"

type_synonym pydict = "(string \<times> json) list"

fun is_dict :: "json \<Rightarrow> bool" where
  "is_dict (JObj d) = True"
| "is_dict _ = False"

fun is_list :: "json \<Rightarrow> bool" where
  "is_list (JArr xs) = True"
| "is_list _ = False"

text \<open>\<^verbatim>\<open>d.get(k, default)\<close> and \<^verbatim>\<open>d.get(k)\<close>, whose default is \<^verbatim>\<open>None\<close>.\<close>

definition dict_get_default :: "pydict \<Rightarrow> string \<Rightarrow> json \<Rightarrow> json" where
  "dict_get_default d k dflt = (case map_of d k of None \<Rightarrow> dflt | Some v \<Rightarrow> v)"

definition dict_get :: "pydict \<Rightarrow> string \<Rightarrow> json" where
  "dict_get d k = dict_get_default d k JNull"

text \<open>\<^verbatim>\<open>s.split(sep)\<close> for a one-character separator: every occurrence splits, and the
  result always has at least one piece.\<close>

fun str_split :: "char \<Rightarrow> string \<Rightarrow> string list" where
  "str_split sep [] = [[]]"
| "str_split sep (c # cs) =
     (if c = sep then [] # str_split sep cs
      else (case str_split sep cs of
              [] \<Rightarrow> [[c]]
            | w # ws \<Rightarrow> (c # w) # ws))"

section \<open>Dynamic extraction\<close>

subsection \<open>\<^verbatim>\<open>extract_path\<close>\<close>

text \<open>
  \<^verbatim>\<open>
  def extract_path(obj, path):
      for p in path.split("."):
          if not isinstance(obj, dict):
              return []
          obj = obj.get(p, [])
          if obj is None:
              return []
      return obj
  \<close>
  The loop over the segments is \<open>extract_path_loop\<close>. An absent key yields the default
  \<^verbatim>\<open>[]\<close> and the loop goes on with it.
\<close>

fun extract_path_loop :: "json \<Rightarrow> string list \<Rightarrow> json" where
  "extract_path_loop obj [] = obj"
| "extract_path_loop obj (p # ps) =
     (case obj of
        JObj d \<Rightarrow>
          (let obj' = dict_get_default d p (JArr [])
           in if obj' = JNull then JArr [] else extract_path_loop obj' ps)
      | _ \<Rightarrow> JArr [])"

definition extract_path :: "json \<Rightarrow> string \<Rightarrow> json" where
  "extract_path obj path = extract_path_loop obj (str_split (CHR ''.'') path)"

text \<open>
  The specification's reading of a traversal, for comparison with the loop: a segment
  resolves when it is looked up against a mapping that has it with a value other than
  null; the traversal resolves to a value when every segment does.
\<close>

fun traverse_spec :: "json \<Rightarrow> string list \<Rightarrow> json option" where
  "traverse_spec obj [] = Some obj"
| "traverse_spec (JObj d) (p # ps) =
     (case map_of d p of
        None \<Rightarrow> None
      | Some v \<Rightarrow> if v = JNull then None else traverse_spec v ps)"
| "traverse_spec _ (p # ps) = None"

subsection \<open>\<^verbatim>\<open>infer_columns\<close>\<close>

text \<open>
  \<^verbatim>\<open>
  def infer_columns(rows):
      cols = set()
      for r in rows:
          if isinstance(r, dict):
              cols.update(r.keys())
      return list(cols)
  \<close>
  The set is a list without repetition. The order in which Python lists a set is not
  fixed by the language, so only what does not depend on the order is stated about it.
\<close>

definition set_update :: "string list \<Rightarrow> string list \<Rightarrow> string list" where
  "set_update cols ks = fold List.insert ks cols"

fun infer_columns_loop :: "string list \<Rightarrow> json list \<Rightarrow> string list" where
  "infer_columns_loop cols [] = cols"
| "infer_columns_loop cols (r # rs) =
     (case r of
        JObj d \<Rightarrow> infer_columns_loop (set_update cols (map fst d)) rs
      | _ \<Rightarrow> infer_columns_loop cols rs)"

definition infer_columns :: "json list \<Rightarrow> string list" where
  "infer_columns rows = infer_columns_loop [] rows"

text \<open>The key sets of the mapping-typed elements of a sequence.\<close>

definition mapping_keys :: "json list \<Rightarrow> string set" where
  "mapping_keys rows = (\<Union>r \<in> set rows. case r of JObj d \<Rightarrow> fst ` set d | _ \<Rightarrow> {})"


section \<open>\<^verbatim>\<open>json.dumps(v, ensure_ascii=False)\<close>\<close>

text \<open>
  The encoder of Python's standard library on the values above, with its default
  separators \<^verbatim>\<open>", "\<close> and \<^verbatim>\<open>": "\<close>. With \<^verbatim>\<open>ensure_ascii=False\<close> only the double
  quote, the backslash and the control characters below \<^verbatim>\<open>0x20\<close> are escaped; every
  other character, ASCII or not, is written as it is.
\<close>

definition hex_digit :: "nat \<Rightarrow> char" where
  "hex_digit n = ''0123456789abcdef'' ! (n mod 16)"

definition hex4 :: "nat \<Rightarrow> string" where
  "hex4 n = [hex_digit (n div 4096), hex_digit (n div 256), hex_digit (n div 16), hex_digit n]"

definition escape_char :: "char \<Rightarrow> string" where
  \<open>escape_char c =
     (if c = CHR ''"'' then [CHR 0x5C, CHR ''"'']
      else if c = CHR 0x5C then [CHR 0x5C, CHR 0x5C]
      else if c = CHR 0x0A then [CHR 0x5C, CHR ''n'']
      else if c = CHR 0x0D then [CHR 0x5C, CHR ''r'']
      else if c = CHR 0x09 then [CHR 0x5C, CHR ''t'']
      else if c = CHR 0x08 then [CHR 0x5C, CHR ''b'']
      else if c = CHR 0x0C then [CHR 0x5C, CHR ''f'']
      else if (of_char c :: nat) < 32 then CHR 0x5C # CHR ''u'' # hex4 (of_char c)
      else [c])\<close>

definition encode_basestring :: "string \<Rightarrow> string" where
  \<open>encode_basestring s = CHR ''"'' # concat (map escape_char s) @ [CHR ''"'']\<close>

definition digit_char :: "nat \<Rightarrow> char" where
  "digit_char n = ''0123456789'' ! (n mod 10)"

fun nat_repr :: "nat \<Rightarrow> string" where
  "nat_repr n = (if n < 10 then [digit_char n] else nat_repr (n div 10) @ [digit_char n])"

definition int_repr :: "int \<Rightarrow> string" where
  "int_repr i = (if i < 0 then CHR ''-'' # nat_repr (nat (- i)) else nat_repr (nat i))"

fun str_join :: "string \<Rightarrow> string list \<Rightarrow> string" where
  "str_join sep [] = []"
| "str_join sep [x] = x"
| "str_join sep (x # y # ys) = x @ sep @ str_join sep (y # ys)"

fun dumps :: "json \<Rightarrow> string" where
  "dumps JNull = ''null''"
| "dumps (JBool b) = (if b then ''true'' else ''false'')"
| "dumps (JInt i) = int_repr i"
| "dumps (JStr s) = encode_basestring s"
| "dumps (JArr xs) = ''['' @ str_join '', '' (map dumps xs) @ '']''"
| "dumps (JObj d) =
     ''{'' @ str_join '', '' (map (\<lambda>(k, v). encode_basestring k @ '': '' @ dumps v) d) @ ''}''"



section \<open>Reading JSON text back\<close>

text \<open>
  A reader of JSON text in the way of \<^verbatim>\<open>json.loads\<close>: white space between tokens, the
  escapes of strings, control characters refused inside strings, a later duplicate key
  replacing the value of an earlier one. Text with a fraction or an exponent denotes a
  floating-point number and is not read. The recursion is bounded by a counter, which
  \<open>loads\<close> starts above the length of the text.
\<close>

definition is_ws :: "char \<Rightarrow> bool" where
  "is_ws c = (c = CHR '' '' \<or> c = CHR 0x09 \<or> c = CHR 0x0A \<or> c = CHR 0x0D)"

definition skip_ws :: "string \<Rightarrow> string" where
  "skip_ws s = dropWhile is_ws s"

definition is_digit :: "char \<Rightarrow> bool" where
  "is_digit c = (48 \<le> (of_char c :: nat) \<and> (of_char c :: nat) \<le> 57)"

definition digit_val :: "char \<Rightarrow> nat" where
  "digit_val c = of_char c - 48"

definition digits_val :: "string \<Rightarrow> nat" where
  "digits_val ds = foldl (\<lambda>n c. 10 * n + digit_val c) 0 ds"

definition starts_fraction :: "string \<Rightarrow> bool" where
  "starts_fraction s = (case s of [] \<Rightarrow> False | c # _ \<Rightarrow> c = CHR ''.'' \<or> c = CHR ''e'' \<or> c = CHR ''E'')"

definition parse_nat :: "string \<Rightarrow> (nat \<times> string) option" where
  "parse_nat s =
     (case s of
        [] \<Rightarrow> None
      | c # cs \<Rightarrow>
          if \<not> is_digit c then None
          else let (ds, rest) = (if c = CHR ''0'' then ([c], cs)
                                 else (takeWhile is_digit s, dropWhile is_digit s))
               in if starts_fraction rest then None else Some (digits_val ds, rest))"

definition hex_val :: "char \<Rightarrow> nat option" where
  "hex_val c =
     (let n = (of_char c :: nat)
      in if 48 \<le> n \<and> n \<le> 57 then Some (n - 48)
         else if 97 \<le> n \<and> n \<le> 102 then Some (n - 87)
         else if 65 \<le> n \<and> n \<le> 70 then Some (n - 55)
         else None)"

definition utf8_encode :: "nat \<Rightarrow> string" where
  "utf8_encode n =
     (if n < 128 then [char_of n]
      else if n < 2048 then [char_of (192 + n div 64), char_of (128 + n mod 64)]
      else [char_of (224 + n div 4096), char_of (128 + n div 64 mod 64), char_of (128 + n mod 64)])"

definition unescape :: "char \<Rightarrow> char option" where
  \<open>unescape e =
     (if e = CHR ''"'' then Some (CHR ''"'')
      else if e = CHR 0x5C then Some (CHR 0x5C)
      else if e = CHR ''/'' then Some (CHR ''/'')
      else if e = CHR ''b'' then Some (CHR 0x08)
      else if e = CHR ''f'' then Some (CHR 0x0C)
      else if e = CHR ''n'' then Some (CHR 0x0A)
      else if e = CHR ''r'' then Some (CHR 0x0D)
      else if e = CHR ''t'' then Some (CHR 0x09)
      else None)\<close>

fun scan_string :: "string \<Rightarrow> (string \<times> string) option" where
  "scan_string [] = None"
| \<open>scan_string (c # cs) =
     (if c = CHR ''"'' then Some ([], cs)
      else if c = CHR 0x5C then
        (case cs of
           [] \<Rightarrow> None
         | e # cs' \<Rightarrow>
             if e = CHR ''u'' then
               (case cs' of
                  h1 # h2 # h3 # h4 # rest \<Rightarrow>
                    (case (hex_val h1, hex_val h2, hex_val h3, hex_val h4) of
                       (Some a, Some b, Some c, Some d) \<Rightarrow>
                         (case scan_string rest of
                            None \<Rightarrow> None
                          | Some (s, r) \<Rightarrow> Some (utf8_encode (4096 * a + 256 * b + 16 * c + d) @ s, r))
                     | _ \<Rightarrow> None)
                | _ \<Rightarrow> None)
             else
               (case unescape e of
                  None \<Rightarrow> None
                | Some ch \<Rightarrow>
                    (case scan_string cs' of
                       None \<Rightarrow> None
                     | Some (s, r) \<Rightarrow> Some (ch # s, r))))
      else if (of_char c :: nat) < 32 then None
      else
        (case scan_string cs of
           None \<Rightarrow> None
         | Some (s, r) \<Rightarrow> Some (c # s, r)))\<close>

definition dict_of_pairs :: "pydict \<Rightarrow> pydict" where
  "dict_of_pairs ps = fold (\<lambda>(k, v) d. AList.update k v d) ps []"

fun parse_value :: "nat \<Rightarrow> string \<Rightarrow> (json \<times> string) option"
  and parse_elements :: "nat \<Rightarrow> string \<Rightarrow> (json list \<times> string) option"
  and parse_members :: "nat \<Rightarrow> string \<Rightarrow> (pydict \<times> string) option"
where
  "parse_value 0 s = None"
| \<open>parse_value (Suc n) s =
     (case skip_ws s of
        [] \<Rightarrow> None
      | c # cs \<Rightarrow>
          if c = CHR ''n'' then (if take 3 cs = ''ull'' then Some (JNull, drop 3 cs) else None)
          else if c = CHR ''t'' then (if take 3 cs = ''rue'' then Some (JBool True, drop 3 cs) else None)
          else if c = CHR ''f'' then (if take 4 cs = ''alse'' then Some (JBool False, drop 4 cs) else None)
          else if c = CHR ''"'' then
            (case scan_string cs of
               None \<Rightarrow> None
             | Some (str, r) \<Rightarrow> Some (JStr str, r))
          else if c = CHR ''['' then
            (case skip_ws cs of
               [] \<Rightarrow> None
             | c' # cs' \<Rightarrow>
                 if c' = CHR '']'' then Some (JArr [], cs')
                 else (case parse_elements n (c' # cs') of
                         None \<Rightarrow> None
                       | Some (vs, r) \<Rightarrow> Some (JArr vs, r)))
          else if c = CHR ''{'' then
            (case skip_ws cs of
               [] \<Rightarrow> None
             | c' # cs' \<Rightarrow>
                 if c' = CHR ''}'' then Some (JObj [], cs')
                 else (case parse_members n (c' # cs') of
                         None \<Rightarrow> None
                       | Some (ms, r) \<Rightarrow> Some (JObj (dict_of_pairs ms), r)))
          else if c = CHR ''-'' then
            (case parse_nat cs of
               None \<Rightarrow> None
             | Some (k, r) \<Rightarrow> Some (JInt (- int k), r))
          else
            (case parse_nat (c # cs) of
               None \<Rightarrow> None
             | Some (k, r) \<Rightarrow> Some (JInt (int k), r)))\<close>
| "parse_elements 0 s = None"
| "parse_elements (Suc n) s =
     (case parse_value n s of
        None \<Rightarrow> None
      | Some (v, r) \<Rightarrow>
          (case skip_ws r of
             [] \<Rightarrow> None
           | c # cs \<Rightarrow>
               if c = CHR '']'' then Some ([v], cs)
               else if c = CHR '','' then
                 (case parse_elements n cs of
                    None \<Rightarrow> None
                  | Some (vs, r') \<Rightarrow> Some (v # vs, r'))
               else None))"
| "parse_members 0 s = None"
| \<open>parse_members (Suc n) s =
     (case skip_ws s of
        [] \<Rightarrow> None
      | c # cs \<Rightarrow>
          if c \<noteq> CHR ''"'' then None
          else
            (case scan_string cs of
               None \<Rightarrow> None
             | Some (k, r) \<Rightarrow>
                 (case skip_ws r of
                    [] \<Rightarrow> None
                  | c1 # r1 \<Rightarrow>
                      if c1 \<noteq> CHR '':'' then None
                      else
                        (case parse_value n r1 of
                           None \<Rightarrow> None
                         | Some (v, r2) \<Rightarrow>
                             (case skip_ws r2 of
                                [] \<Rightarrow> None
                              | c2 # r3 \<Rightarrow>
                                  if c2 = CHR ''}'' then Some ([(k, v)], r3)
                                  else if c2 = CHR '','' then
                                    (case parse_members n r3 of
                                       None \<Rightarrow> None
                                     | Some (ms, r4) \<Rightarrow> Some ((k, v) # ms, r4))
                                  else None)))))\<close>

definition loads :: "string \<Rightarrow> json option" where
  "loads s =
     (case parse_value (Suc (length s)) s of
        None \<Rightarrow> None
      | Some (v, r) \<Rightarrow> if skip_ws r = [] then Some v else None)"


text \<open>
  A value is well formed when no mapping in it has a key twice, as is the case for every
  Python \<^verbatim>\<open>dict\<close>.
\<close>

fun wf_json :: "json \<Rightarrow> bool" where
  "wf_json (JArr xs) = list_all wf_json xs"
| "wf_json (JObj d) = (distinct (map fst d) \<and> list_all (\<lambda>(k, v). wf_json v) d)"
| "wf_json _ = True"

text \<open>
  Auxiliary notions for the proofs about the reader: a bound on the counter that suffices
  to read a value back, the text of one member of a mapping, what may follow a number, and
  a character that a value can start with.
\<close>

fun fuel :: "json \<Rightarrow> nat" where
  "fuel (JArr xs) = Suc (sum_list (map (\<lambda>x. Suc (fuel x)) xs))"
| "fuel (JObj d) = Suc (sum_list (map (\<lambda>(k, v). Suc (fuel v)) d))"
| "fuel _ = 1"

definition dumps_member :: "string \<times> json \<Rightarrow> string" where
  "dumps_member kv = encode_basestring (fst kv) @ '': '' @ dumps (snd kv)"

definition value_end :: "string \<Rightarrow> bool" where
  "value_end rest = (case rest of [] \<Rightarrow> True
     | c # _ \<Rightarrow> \<not> is_digit c \<and> c \<noteq> CHR ''.'' \<and> c \<noteq> CHR ''e'' \<and> c \<noteq> CHR ''E'')"

definition value_start :: "char \<Rightarrow> bool" where
  "value_start c = (\<not> is_ws c \<and> c \<noteq> CHR '']'' \<and> c \<noteq> CHR ''}'')"

section \<open>Errors, the store and the log\<close>

text \<open>
  Every exception the modelled code can raise is a value. \<open>StatementError\<close> is the
  store rejecting a statement, \<open>ConnectionError\<close> is \<^verbatim>\<open>engine.begin()\<close> failing to
  obtain a connection.
\<close>

datatype py_error =
    KeyError
  | IndexError
  | AttributeError
  | TypeError
  | StatementError
  | ConnectionError

datatype log_entry = Info string | Warning string

datatype statement = ExecDriverSql string | Execute string pydict

record db_table =
  tbl_columns :: "string list"
  tbl_rows :: "pydict list"

type_synonym store = "(string \<times> db_table) list"

text \<open>
  The world outside the process: the committed content of the store, the log lines
  written so far, and every statement sent to the store, in order (a statement that the
  store rejects has still been sent).
\<close>

record world =
  w_store :: store
  w_log :: "log_entry list"
  w_sent :: "statement list"

text \<open>
  The store is not part of the repository. What it does with a statement is a parameter:
  whether a connection can be had, and which statements it rejects. A statement it
  accepts has the effect its builder intends.
\<close>

record engine =
  connect_fails :: bool
  rejects_ddl :: "string \<Rightarrow> bool"
  rejects_insert :: "string \<Rightarrow> pydict \<Rightarrow> bool"

section \<open>Materializing and loading a table\<close>

text \<open>
  \<^verbatim>\<open>
  def drop_and_create_table(engine, table, columns):
      # Escapar columnas problematicas
      cols_sql = ", ".join([f"\"{c}\" TEXT" for c in columns])
      sql = f'DROP TABLE IF EXISTS "{table}"; CREATE TABLE "{table}" ({cols_sql});'
      with engine.begin() as conn:
          conn.exec_driver_sql(sql)
      logger.info(f"Created table {table}")
  \<close>
  \<^verbatim>\<open>engine.begin()\<close> opens a transaction that is committed when the block ends and
  rolled back when it raises.
\<close>

definition create_table_sql :: "string \<Rightarrow> string list \<Rightarrow> string" where
  \<open>create_table_sql table columns =
     (let cols_sql = str_join '', '' (map (\<lambda>c. ''"'' @ c @ ''" TEXT'') columns)
      in ''DROP TABLE IF EXISTS "'' @ table @ ''"; CREATE TABLE "'' @ table @ ''" (''
           @ cols_sql @ '');'')\<close>

definition drop_and_create_table ::
  "engine \<Rightarrow> string \<Rightarrow> string list \<Rightarrow> world \<Rightarrow> py_error option \<times> world" where
  "drop_and_create_table eng table columns w =
     (let sql = create_table_sql table columns
      in if connect_fails eng then (Some ConnectionError, w)
         else
           (let w1 = w\<lparr>w_sent := w_sent w @ [ExecDriverSql sql]\<rparr>
            in if rejects_ddl eng sql then (Some StatementError, w1)
               else (None,
                 w1\<lparr>w_store :=
                       AList.update table \<lparr>tbl_columns = columns, tbl_rows = []\<rparr> (w_store w1),
                     w_log := w_log w1 @ [Info (''Created table '' @ table)]\<rparr>)))"

text \<open>
  \<^verbatim>\<open>
  def insert_rows(engine, table, columns, rows):
      with engine.begin() as conn:
          for r in rows:
              clean = {}
              for c in columns:
                  v = r.get(c)
                  # FIX CRITICO
                  if isinstance(v, (dict, list)):
                      v = json.dumps(v, ensure_ascii=False)
                  clean[c] = v
              placeholders = ",".join([f":{c}" for c in columns])
              col_sql = ",".join([f"\"{c}\"" for c in columns])
              sql = f'INSERT INTO "{table}" ({col_sql}) VALUES ({placeholders})'
              conn.execute(text(sql), clean)
  \<close>
\<close>

definition bind_value :: "pydict \<Rightarrow> string \<Rightarrow> json" where
  "bind_value r c =
     (let v = dict_get r c
      in if is_dict v \<or> is_list v then JStr (dumps v) else v)"

definition clean_row :: "string list \<Rightarrow> pydict \<Rightarrow> pydict" where
  "clean_row columns r = fold (\<lambda>c clean. AList.update c (bind_value r c) clean) columns []"

definition insert_sql :: "string \<Rightarrow> string list \<Rightarrow> string" where
  \<open>insert_sql table columns =
     (let placeholders = str_join '','' (map (\<lambda>c. '':'' @ c) columns);
          col_sql = str_join '','' (map (\<lambda>c. ''"'' @ c @ ''"'') columns)
      in ''INSERT INTO "'' @ table @ ''" ('' @ col_sql @ '') VALUES ('' @ placeholders @ '')'')\<close>

text \<open>What an accepted insert does to the store; a store has no table to insert into when
  none of that name exists, and then rejects the statement.\<close>

definition execute_insert ::
  "engine \<Rightarrow> string \<Rightarrow> string \<Rightarrow> pydict \<Rightarrow> store \<Rightarrow> store option" where
  "execute_insert eng table sql clean st =
     (if rejects_insert eng sql clean then None
      else (case map_of st table of
              None \<Rightarrow> None
            | Some t \<Rightarrow> Some (AList.update table (t\<lparr>tbl_rows := tbl_rows t @ [clean]\<rparr>) st)))"

text \<open>The loop inside the transaction: it works on the transaction's view of the store.\<close>

fun insert_rows_loop ::
  "engine \<Rightarrow> string \<Rightarrow> string list \<Rightarrow> pydict list \<Rightarrow> store \<Rightarrow> statement list
     \<Rightarrow> py_error option \<times> store \<times> statement list" where
  "insert_rows_loop eng table columns [] st sent = (None, st, sent)"
| "insert_rows_loop eng table columns (r # rs) st sent =
     (let clean = clean_row columns r;
          sql = insert_sql table columns;
          sent' = sent @ [Execute sql clean]
      in case execute_insert eng table sql clean st of
           None \<Rightarrow> (Some StatementError, st, sent')
         | Some st' \<Rightarrow> insert_rows_loop eng table columns rs st' sent')"

definition insert_rows ::
  "engine \<Rightarrow> string \<Rightarrow> string list \<Rightarrow> pydict list \<Rightarrow> world \<Rightarrow> py_error option \<times> world" where
  "insert_rows eng table columns rows w =
     (if connect_fails eng then (Some ConnectionError, w)
      else (case insert_rows_loop eng table columns rows (w_store w) (w_sent w) of
              (None, st, sent) \<Rightarrow> (None, w\<lparr>w_store := st, w_sent := sent\<rparr>)
            | (Some e, st, sent) \<Rightarrow> (Some e, w\<lparr>w_sent := sent\<rparr>)))"

section \<open>The changelog projection\<close>

text \<open>
  \<^verbatim>\<open>
  flat = {
      "issue_key": r.get("issue_key"),
      "author_name": r.get("author", {}).get("displayName") if isinstance(r.get("author"), dict) else None,
      "author_account_id": r.get("author", {}).get("accountId") if isinstance(r.get("author"), dict) else None,
      "created": r.get("created"),
      "field": r.get("items", [{}])[0].get("field") if isinstance(r.get("items"), list) else None,
      "from": r.get("items", [{}])[0].get("fromString") if isinstance(r.get("items"), list) else None,
      "to": r.get("items", [{}])[0].get("toString") if isinstance(r.get("items"), list) else None,
  }
  \<close>
  \<open>method_get x k\<close> is the call \<^verbatim>\<open>x.get(k)\<close> on a value of any type, \<open>subscript0 x\<close> is
  \<^verbatim>\<open>x[0]\<close>.
\<close>

definition method_get :: "json \<Rightarrow> string \<Rightarrow> py_error + json" where
  "method_get x k = (case x of JObj d \<Rightarrow> Inr (dict_get d k) | _ \<Rightarrow> Inl AttributeError)"

definition is_continuation :: "char \<Rightarrow> bool" where
  "is_continuation c = (128 \<le> (of_char c :: nat) \<and> (of_char c :: nat) < 192)"

definition subscript0 :: "json \<Rightarrow> py_error + json" where
  "subscript0 x =
     (case x of
        JArr [] \<Rightarrow> Inl IndexError
      | JArr (y # _) \<Rightarrow> Inr y
      | JStr [] \<Rightarrow> Inl IndexError
      | JStr (c # cs) \<Rightarrow> Inr (JStr (c # takeWhile is_continuation cs))
      | JObj d \<Rightarrow> Inl KeyError
      | _ \<Rightarrow> Inl TypeError)"

definition author_get :: "pydict \<Rightarrow> string \<Rightarrow> py_error + json" where
  "author_get r k =
     (if is_dict (dict_get r ''author'')
      then method_get (dict_get_default r ''author'' (JObj [])) k
      else Inr JNull)"

definition first_item_get :: "pydict \<Rightarrow> string \<Rightarrow> py_error + json" where
  "first_item_get r k =
     (if is_list (dict_get r ''items'')
      then (case subscript0 (dict_get_default r ''items'' (JArr [JObj []])) of
              Inl e \<Rightarrow> Inl e
            | Inr x \<Rightarrow> method_get x k)
      else Inr JNull)"

definition flatten_row :: "pydict \<Rightarrow> py_error + pydict" where
  "flatten_row r =
     (case author_get r ''displayName'' of
        Inl e \<Rightarrow> Inl e
      | Inr author_name \<Rightarrow>
     (case author_get r ''accountId'' of
        Inl e \<Rightarrow> Inl e
      | Inr author_account_id \<Rightarrow>
     (case first_item_get r ''field'' of
        Inl e \<Rightarrow> Inl e
      | Inr field \<Rightarrow>
     (case first_item_get r ''fromString'' of
        Inl e \<Rightarrow> Inl e
      | Inr from \<Rightarrow>
     (case first_item_get r ''toString'' of
        Inl e \<Rightarrow> Inl e
      | Inr to \<Rightarrow>
          Inr [(''issue_key'', dict_get r ''issue_key''),
               (''author_name'', author_name),
               (''author_account_id'', author_account_id),
               (''created'', dict_get r ''created''),
               (''field'', field),
               (''from'', from),
               (''to'', to)])))))"

fun flatten_rows :: "pydict list \<Rightarrow> py_error + pydict list" where
  "flatten_rows [] = Inr []"
| "flatten_rows (r # rs) =
     (case flatten_row r of
        Inl e \<Rightarrow> Inl e
      | Inr flat \<Rightarrow>
          (case flatten_rows rs of
             Inl e \<Rightarrow> Inl e
           | Inr flat_rows \<Rightarrow> Inr (flat # flat_rows)))"

text \<open>The keys of a flat row, in the order of the dictionary display: what
  \<^verbatim>\<open>list(flat_rows[0].keys())\<close> is.\<close>

definition flat_columns :: "string list" where
  "flat_columns =
     [''issue_key'', ''author_name'', ''author_account_id'', ''created'', ''field'', ''from'', ''to'']"

section \<open>The dynamic pipeline\<close>

definition DYNAMIC_TABLES :: "(string \<times> string) list" where
  "DYNAMIC_TABLES =
     [(''jira_subtasks'', ''fields.subtasks''), (''jira_changelog'', ''changelog.histories'')]"

text \<open>
  \<^verbatim>\<open>
  all_rows = []
  for issue in issues_json:
      rows = extract_path(issue, path)
      if isinstance(rows, list):
          for r in rows:
              if isinstance(r, dict):
                  r["issue_key"] = issue["key"]
                  all_rows.append(r)
  \<close>
  The assignment changes the sub-record where it lives, inside the document. A document
  parsed from JSON text is a tree, so the change is the update of the document at the
  path: \<open>tag_rows\<close> computes the list as the loop leaves it, and \<open>put_path\<close> puts it where
  \<open>extract_path\<close> found it. \<^verbatim>\<open>issue["key"]\<close> is read at the top of the document; the
  sub-records lie below the first segment of the path, so for a path whose first segment is
  not \<^verbatim>\<open>key\<close> the value read is not touched by the assignments.
\<close>

definition subscript_key :: "json \<Rightarrow> string \<Rightarrow> py_error + json" where
  "subscript_key obj k =
     (case obj of
        JObj d \<Rightarrow> (case map_of d k of None \<Rightarrow> Inl KeyError | Some v \<Rightarrow> Inr v)
      | _ \<Rightarrow> Inl TypeError)"

fun tag_rows :: "json \<Rightarrow> json list \<Rightarrow> py_error + json list" where
  "tag_rows issue [] = Inr []"
| "tag_rows issue (r # rs) =
     (case r of
        JObj d \<Rightarrow>
          (case subscript_key issue ''key'' of
             Inl e \<Rightarrow> Inl e
           | Inr k \<Rightarrow>
               (case tag_rows issue rs of
                  Inl e \<Rightarrow> Inl e
                | Inr rs' \<Rightarrow> Inr (JObj (AList.update ''issue_key'' k d) # rs')))
      | _ \<Rightarrow>
          (case tag_rows issue rs of
             Inl e \<Rightarrow> Inl e
           | Inr rs' \<Rightarrow> Inr (r # rs')))"

fun dict_rows :: "json list \<Rightarrow> pydict list" where
  "dict_rows [] = []"
| "dict_rows (r # rs) = (case r of JObj d \<Rightarrow> d # dict_rows rs | _ \<Rightarrow> dict_rows rs)"

fun put_path_loop :: "json \<Rightarrow> string list \<Rightarrow> json \<Rightarrow> json" where
  "put_path_loop obj [] v = v"
| "put_path_loop obj (p # ps) v =
     (case obj of
        JObj d \<Rightarrow>
          (case map_of d p of
             None \<Rightarrow> obj
           | Some obj' \<Rightarrow>
               if obj' = JNull then obj
               else JObj (AList.update p (put_path_loop obj' ps v) d))
      | _ \<Rightarrow> obj)"

definition put_path :: "json \<Rightarrow> string \<Rightarrow> json \<Rightarrow> json" where
  "put_path obj path v = put_path_loop obj (str_split (CHR ''.'') path) v"

definition gather_issue :: "string \<Rightarrow> json \<Rightarrow> py_error + (pydict list \<times> json)" where
  "gather_issue path issue =
     (case extract_path issue path of
        JArr rs \<Rightarrow>
          (case tag_rows issue rs of
             Inl e \<Rightarrow> Inl e
           | Inr rs' \<Rightarrow> Inr (dict_rows rs', put_path issue path (JArr rs')))
      | _ \<Rightarrow> Inr ([], issue))"

fun gather_rows :: "string \<Rightarrow> json list \<Rightarrow> py_error + (pydict list \<times> json list)" where
  "gather_rows path [] = Inr ([], [])"
| "gather_rows path (issue # issues) =
     (case gather_issue path issue of
        Inl e \<Rightarrow> Inl e
      | Inr (rows, issue') \<Rightarrow>
          (case gather_rows path issues of
             Inl e \<Rightarrow> Inl e
           | Inr (all_rows, issues') \<Rightarrow> Inr (rows @ all_rows, issue' # issues')))"

text \<open>
  \<^verbatim>\<open>
  def upload_dynamic(self, issues_json):
      for table, path in DYNAMIC_TABLES.items():
          logger.info(f"Extracting dynamic table {table} from {path}")
          all_rows = ...
          if not all_rows:
              logger.warning(f"No rows for {table}")
              continue
          cols = infer_columns(all_rows)
          drop_and_create_table(self.engine, table, cols)
          insert_rows(self.engine, table, cols, all_rows)
          if table == "jira_changelog":
              flat_rows = ...
              flat_cols = list(flat_rows[0].keys()) if flat_rows else []
              if flat_rows:
                  drop_and_create_table(self.engine, "jira_changelog_flat", flat_cols)
                  insert_rows(self.engine, "jira_changelog_flat", flat_cols, flat_rows)
                  logger.info(f"Uploaded flattened {len(flat_rows)} rows to jira_changelog_flat")
  \<close>
  There is no \<^verbatim>\<open>try\<close> in the method: an exception leaves it at once. The outcome of a
  run is either the documents as the run left them and the world, or the exception and the
  world at the moment it was raised.
\<close>

datatype outcome = Completed "json list" world | Failed py_error world

definition add_log :: "log_entry \<Rightarrow> world \<Rightarrow> world" where
  "add_log l w = w\<lparr>w_log := w_log w @ [l]\<rparr>"

definition upload_flat :: "engine \<Rightarrow> pydict list \<Rightarrow> world \<Rightarrow> py_error option \<times> world" where
  "upload_flat eng all_rows w =
     (case flatten_rows all_rows of
        Inl e \<Rightarrow> (Some e, w)
      | Inr flat_rows \<Rightarrow>
          (let flat_cols = (case flat_rows of [] \<Rightarrow> [] | flat # _ \<Rightarrow> map fst flat)
           in if flat_rows = [] then (None, w)
              else (case drop_and_create_table eng ''jira_changelog_flat'' flat_cols w of
                      (Some e, w1) \<Rightarrow> (Some e, w1)
                    | (None, w1) \<Rightarrow>
                        (case insert_rows eng ''jira_changelog_flat'' flat_cols flat_rows w1 of
                           (Some e, w2) \<Rightarrow> (Some e, w2)
                         | (None, w2) \<Rightarrow>
                             (None, add_log (Info (''Uploaded flattened ''
                                @ nat_repr (length flat_rows) @ '' rows to jira_changelog_flat'')) w2)))))"

definition upload_target :: "engine \<Rightarrow> string \<times> string \<Rightarrow> json list \<Rightarrow> world \<Rightarrow> outcome" where
  "upload_target eng target issues w =
     (let table = fst target; path = snd target;
          w0 = add_log (Info (''Extracting dynamic table '' @ table @ '' from '' @ path)) w
      in case gather_rows path issues of
           Inl e \<Rightarrow> Failed e w0
         | Inr (all_rows, issues') \<Rightarrow>
             if all_rows = [] then Completed issues' (add_log (Warning (''No rows for '' @ table)) w0)
             else
               (let cols = infer_columns (map JObj all_rows)
                in case drop_and_create_table eng table cols w0 of
                     (Some e, w1) \<Rightarrow> Failed e w1
                   | (None, w1) \<Rightarrow>
                       (case insert_rows eng table cols all_rows w1 of
                          (Some e, w2) \<Rightarrow> Failed e w2
                        | (None, w2) \<Rightarrow>
                            if table = ''jira_changelog'' then
                              (case upload_flat eng all_rows w2 of
                                 (Some e, w3) \<Rightarrow> Failed e w3
                               | (None, w3) \<Rightarrow> Completed issues' w3)
                            else Completed issues' w2)))"

fun upload_targets :: "engine \<Rightarrow> (string \<times> string) list \<Rightarrow> json list \<Rightarrow> world \<Rightarrow> outcome" where
  "upload_targets eng [] issues w = Completed issues w"
| "upload_targets eng (target # targets) issues w =
     (case upload_target eng target issues w of
        Failed e w' \<Rightarrow> Failed e w'
      | Completed issues' w' \<Rightarrow> upload_targets eng targets issues' w')"

definition upload_dynamic :: "engine \<Rightarrow> json list \<Rightarrow> world \<Rightarrow> outcome" where
  "upload_dynamic eng issues_json w = upload_targets eng DYNAMIC_TABLES issues_json w"

section \<open>Reading outcomes, and the inputs of the examples\<close>

text \<open>The statement that \<open>insert_rows\<close> sends for one row.\<close>

definition row_statement :: "string \<Rightarrow> string list \<Rightarrow> pydict \<Rightarrow> statement" where
  "row_statement table columns r = Execute (insert_sql table columns) (clean_row columns r)"

text \<open>The two components of an outcome.\<close>

fun outcome_error :: "outcome \<Rightarrow> py_error option" where
  "outcome_error (Completed issues w) = None"
| "outcome_error (Failed e w) = Some e"

fun outcome_world :: "outcome \<Rightarrow> world" where
  "outcome_world (Completed issues w) = w"
| "outcome_world (Failed e w) = w"

text \<open>
  Stores for the examples: one that accepts everything, one that rejects the insert of the
  row whose \<^verbatim>\<open>id\<close> is 2, and one that rejects the statement creating the table
  \<^verbatim>\<open>jira_subtasks\<close>. All three hand out connections.
\<close>

definition eng_accepting :: engine where
  "eng_accepting =
     \<lparr>connect_fails = False, rejects_ddl = (\<lambda>sql. False), rejects_insert = (\<lambda>sql clean. False)\<rparr>"

definition eng_reject_second :: engine where
  "eng_reject_second =
     \<lparr>connect_fails = False, rejects_ddl = (\<lambda>sql. False),
      rejects_insert = (\<lambda>sql clean. dict_get clean ''id'' = JInt 2)\<rparr>"

definition eng_reject_subtasks :: engine where
  \<open>eng_reject_subtasks =
     \<lparr>connect_fails = False,
      rejects_ddl = (\<lambda>sql. take 36 sql = ''DROP TABLE IF EXISTS "jira_subtasks"''),
      rejects_insert = (\<lambda>sql clean. False)\<rparr>\<close>

text \<open>Worlds for the examples: nothing stored, and one freshly created table.\<close>

definition world_empty :: world where
  "world_empty = \<lparr>w_store = [], w_log = [], w_sent = []\<rparr>"

definition world_one_table :: world where
  "world_one_table =
     \<lparr>w_store = [(''t'', \<lparr>tbl_columns = [''id''], tbl_rows = []\<rparr>)], w_log = [], w_sent = []\<rparr>"

text \<open>A world whose one table has the four columns of the example load.\<close>

definition world_nested_table :: world where
  "world_nested_table =
     \<lparr>w_store = [(''t'', \<lparr>tbl_columns = [''id'', ''items'', ''author'', ''created''], tbl_rows = []\<rparr>)],
      w_log = [], w_sent = []\<rparr>"

text \<open>A row with a nested list, a nested mapping with a non-ASCII name, and no
  \<^verbatim>\<open>created\<close>.\<close>

definition row_nested :: pydict where
  "row_nested =
     [(''id'', JStr ''10''),
      (''items'', JArr [JObj [(''field'', JStr ''status''), (''n'', JInt (- 12))], JNull]),
      (''author'', JObj [(''displayName'', JStr [CHR 0xC3, CHR 0xA9])])]"

text \<open>
  Documents for the examples: one without subtasks, one with a subtask and a history entry,
  one whose subtask already carries an \<^verbatim>\<open>issue_key\<close>; and a history entry that changes two
  fields at once.
\<close>

definition doc_no_subtasks :: json where
  "doc_no_subtasks = JObj [(''key'', JStr ''X-1''), (''fields'', JObj [(''summary'', JStr ''a'')])]"

definition doc_both :: json where
  "doc_both =
     JObj [(''key'', JStr ''X-1''),
           (''fields'', JObj [(''subtasks'', JArr [JObj [(''id'', JStr ''10'')]])]),
           (''changelog'', JObj [(''histories'', JArr [JObj [(''created'', JStr ''2024'')]])])]"


definition history_two_items :: pydict where
  "history_two_items =
     [(''created'', JStr ''2024''),
      (''items'', JArr [JObj [(''field'', JStr ''status''), (''fromString'', JStr ''Open''),
                               (''toString'', JStr ''Done'')],
                         JObj [(''field'', JStr ''priority''), (''fromString'', JStr ''Low''),
                               (''toString'', JStr ''High'')]]),
      (''issue_key'', JStr ''X-1'')]"

section \<open>Properties of the extraction\<close>

lemma str_split_nonempty: "str_split sep s \<noteq> []"
  by (induction s) (auto split: list.splits)

lemma extract_path_loop_empty_list: "extract_path_loop (JArr []) ps = JArr []"
  by (cases ps) simp_all

lemma extract_path_loop_unresolved:
  "traverse_spec obj ps = None \<Longrightarrow> extract_path_loop obj ps = JArr []"
proof (induction obj ps rule: traverse_spec.induct)
  case (2 d p ps)
  then show ?case
    by (auto simp: dict_get_default_def Let_def extract_path_loop_empty_list
        split: option.splits if_splits)
qed simp_all

lemma extract_path_loop_resolved:
  "traverse_spec obj ps = Some v \<Longrightarrow> extract_path_loop obj ps = v"
proof (induction obj ps rule: traverse_spec.induct)
  case (2 d p ps)
  then show ?case
    by (auto simp: dict_get_default_def Let_def split: option.splits if_splits)
qed simp_all

text \<open>
  C5. For every document and every dot-separated path: when some segment is absent, maps
  to null or is looked up against a node that is not a mapping, \<open>extract_path\<close> returns
  the empty sequence; when every segment resolves, it returns the final value as it is,
  whatever its type. The function is total: none of its steps can raise.
\<close>

theorem extract_path_soft:
  "(traverse_spec D (str_split (CHR ''.'') P) = None \<longrightarrow> extract_path D P = JArr []) \<and>
   (\<forall>v. traverse_spec D (str_split (CHR ''.'') P) = Some v \<longrightarrow> extract_path D P = v)"
  unfolding extract_path_def
  using extract_path_loop_unresolved extract_path_loop_resolved by blast

theorem extract_path_soft_witness:
  "traverse_spec (JObj [(''fields'', JObj [(''subtasks'', JNull)])])
       (str_split (CHR ''.'') ''fields.subtasks'') = None \<and>
   extract_path (JObj [(''fields'', JObj [(''subtasks'', JNull)])]) ''fields.subtasks'' = JArr [] \<and>
   traverse_spec (JObj [(''fields'', JObj [(''subtasks'', JInt 7)])])
       (str_split (CHR ''.'') ''fields.subtasks'') = Some (JInt 7) \<and>
   extract_path (JObj [(''fields'', JObj [(''subtasks'', JInt 7)])]) ''fields.subtasks'' = JInt 7"
proof -
  have a: "traverse_spec (JObj [(''fields'', JObj [(''subtasks'', JNull)])])
       (str_split (CHR ''.'') ''fields.subtasks'') = None"
    by simp
  have b: "traverse_spec (JObj [(''fields'', JObj [(''subtasks'', JInt 7)])])
       (str_split (CHR ''.'') ''fields.subtasks'') = Some (JInt 7)"
    by simp
  from a b
    extract_path_soft [of "JObj [(''fields'', JObj [(''subtasks'', JNull)])]" "''fields.subtasks''"]
    extract_path_soft [of "JObj [(''fields'', JObj [(''subtasks'', JInt 7)])]" "''fields.subtasks''"]
  show ?thesis by blast
qed

lemma set_set_update: "set (set_update cols ks) = set cols \<union> set ks"
  unfolding set_update_def by (induction ks arbitrary: cols) auto

lemma distinct_set_update: "distinct cols \<Longrightarrow> distinct (set_update cols ks)"
  unfolding set_update_def by (induction ks arbitrary: cols) auto

lemma set_infer_columns_loop:
  "set (infer_columns_loop cols rows) = set cols \<union> mapping_keys rows"
proof (induction rows arbitrary: cols)
  case Nil
  show ?case by (simp add: mapping_keys_def)
next
  case (Cons r rows)
  show ?case
    by (cases r) (auto simp: Cons.IH set_set_update mapping_keys_def)
qed

lemma distinct_infer_columns_loop:
  "distinct cols \<Longrightarrow> distinct (infer_columns_loop cols rows)"
proof (induction rows arbitrary: cols)
  case (Cons r rows)
  then show ?case by (cases r) (simp_all add: distinct_set_update)
qed simp

lemma set_infer_columns: "set (infer_columns rows) = mapping_keys rows"
  by (simp add: infer_columns_def set_infer_columns_loop)

lemma distinct_infer_columns: "distinct (infer_columns rows)"
  by (simp add: infer_columns_def distinct_infer_columns_loop)

lemma mapping_keys_empty_iff:
  "mapping_keys rows = {} \<longleftrightarrow> (\<forall>d. JObj d \<in> set rows \<longrightarrow> d = [])"
proof
  assume e: "mapping_keys rows = {}"
  show "\<forall>d. JObj d \<in> set rows \<longrightarrow> d = []"
  proof (intro allI impI)
    fix d assume "JObj d \<in> set rows"
    then have "fst ` set d \<subseteq> mapping_keys rows"
      unfolding mapping_keys_def by force
    with e show "d = []" by simp
  qed
next
  assume a: "\<forall>d. JObj d \<in> set rows \<longrightarrow> d = []"
  show "mapping_keys rows = {}"
    unfolding mapping_keys_def
  proof (clarsimp split: json.splits)
    fix d assume "JObj d \<in> set rows"
    with a show "d = []" by blast
  qed
qed

text \<open>
  C6, as the specification states it, fails: a sequence that holds a mapping without keys
  has a mapping-typed element and still yields no column.
\<close>

theorem infer_columns_empty_counterexample:
  "\<not> (infer_columns [JObj []] = [] \<longleftrightarrow> (\<forall>r \<in> set [JObj []]. \<not> is_dict r))"
  by (simp add: infer_columns_def set_update_def)

text \<open>
  C6, amended. For every sequence of values, \<open>infer_columns\<close> viewed as a set is the union
  of the key sets of its mapping-typed elements (the other elements contribute nothing),
  and it is empty if and only if every mapping-typed element of the sequence has no key;
  a sequence without mapping-typed elements is one such case.
\<close>

theorem infer_columns_union:
  "set (infer_columns R) = mapping_keys R \<and>
   (infer_columns R = [] \<longleftrightarrow> (\<forall>d. JObj d \<in> set R \<longrightarrow> d = [])) \<and>
   ((\<forall>r \<in> set R. \<not> is_dict r) \<longrightarrow> infer_columns R = [])"
proof -
  have s: "set (infer_columns R) = mapping_keys R"
    by (rule set_infer_columns)
  have e: "infer_columns R = [] \<longleftrightarrow> (\<forall>d. JObj d \<in> set R \<longrightarrow> d = [])"
    using s mapping_keys_empty_iff [of R] by (metis set_empty)
  have n: "(\<forall>r \<in> set R. \<not> is_dict r) \<longrightarrow> infer_columns R = []"
    using e by auto
  from s e n show ?thesis by blast
qed

theorem infer_columns_union_witness:
  "set (infer_columns [JObj [(''a'', JInt 1), (''b'', JNull)], JInt 3, JObj [(''b'', JNull), (''c'', JNull)]])
     = {''a'', ''b'', ''c''} \<and>
   infer_columns [JInt 3, JObj []] = [] \<and>
   infer_columns [JInt 3, JStr ''x''] = []"
proof -
  have k: "mapping_keys [JObj [(''a'', JInt 1), (''b'', JNull)], JInt 3, JObj [(''b'', JNull), (''c'', JNull)]]
     = {''a'', ''b'', ''c''}"
    by (auto simp: mapping_keys_def)
  have d: "\<forall>d. JObj d \<in> set [JInt 3, JObj []] \<longrightarrow> d = []"
    by simp
  have n: "\<forall>r \<in> set [JInt 3, JStr ''x'']. \<not> is_dict r"
    by simp
  from k d n
    infer_columns_union [of "[JObj [(''a'', JInt 1), (''b'', JNull)], JInt 3, JObj [(''b'', JNull), (''c'', JNull)]]"]
    infer_columns_union [of "[JInt 3, JObj []]"]
    infer_columns_union [of "[JInt 3, JStr ''x'']"]
  show ?thesis by simp
qed

section \<open>Properties of dictionaries\<close>

lemma dict_get_update_same: "dict_get (AList.update k v d) k = v"
  by (simp add: dict_get_def dict_get_default_def update_conv')

lemma dict_get_update_other: "k' \<noteq> k \<Longrightarrow> dict_get (AList.update k v d) k' = dict_get d k'"
  by (simp add: dict_get_def dict_get_default_def update_conv')

lemma dict_get_default_update_other:
  "k' \<noteq> k \<Longrightarrow> dict_get_default (AList.update k v d) k' x = dict_get_default d k' x"
  by (simp add: dict_get_default_def update_conv')

lemma dict_get_default_present:
  "dict_get d k \<noteq> JNull \<Longrightarrow> dict_get_default d k x = dict_get d k"
  by (auto simp: dict_get_def dict_get_default_def split: option.splits)

lemma update_same_value: "map_of d k = Some v \<Longrightarrow> AList.update k v d = d"
  by (induction d) auto

section \<open>Properties of the gathering of rows\<close>

lemma put_path_loop_extracted: "put_path_loop obj ps (extract_path_loop obj ps) = obj"
proof (induction ps arbitrary: obj)
  case (Cons p ps)
  show ?case
  proof (cases obj)
    case (JObj d)
    show ?thesis
    proof (cases "map_of d p")
      case (Some c)
      with JObj Cons.IH [of c] show ?thesis
        by (simp add: dict_get_default_def update_same_value)
    qed (simp add: JObj)
  qed simp_all
qed simp

lemma put_path_extracted: "put_path obj path (extract_path obj path) = obj"
  by (simp add: put_path_def extract_path_def put_path_loop_extracted)



lemma tag_rows_no_dict:
  "tag_rows issue rs = Inr rs' \<Longrightarrow> dict_rows rs' = [] \<Longrightarrow> rs' = rs"
proof (induction rs arbitrary: rs')
  case (Cons r rs)
  then show ?case by (cases r) (auto split: sum.splits)
qed simp



lemma gather_issue_no_rows: "gather_issue path issue = Inr ([], issue') \<Longrightarrow> issue' = issue"
proof -
  assume g: "gather_issue path issue = Inr ([], issue')"
  show ?thesis
  proof (cases "extract_path issue path")
    case (JArr rs)
    with g obtain rs' where t: "tag_rows issue rs = Inr rs'" and d: "dict_rows rs' = []"
      and i: "issue' = put_path issue path (JArr rs')"
      by (auto simp: gather_issue_def split: sum.splits)
    from t d have "rs' = rs" by (rule tag_rows_no_dict)
    with i JArr show ?thesis using put_path_extracted [of issue path] by simp
  qed (use g in \<open>auto simp: gather_issue_def\<close>)
qed

lemma gather_rows_no_rows: "gather_rows path issues = Inr ([], issues') \<Longrightarrow> issues' = issues"
proof (induction issues arbitrary: issues')
  case (Cons issue issues)
  then show ?case
    by (auto split: sum.splits dest: gather_issue_no_rows)
qed simp




section \<open>Properties of the changelog projection\<close>

lemma first_item_get_cons:
  "dict_get r ''items'' = JArr (x # xs) \<Longrightarrow> first_item_get r k = method_get x k"
  by (simp add: first_item_get_def dict_get_default_present subscript0_def)

lemma first_item_get_update:
  "first_item_get (AList.update ''items'' (JArr (x # xs)) r) k = method_get x k"
  by (rule first_item_get_cons [where xs = xs]) (simp add: dict_get_update_same)

lemma first_item_get_no_list:
  "\<not> is_list (dict_get r ''items'') \<Longrightarrow> first_item_get r k = Inr JNull"
  by (simp add: first_item_get_def)

lemma author_get_update_items:
  "author_get (AList.update ''items'' v r) k = author_get r k"
  by (simp add: author_get_def dict_get_update_other dict_get_default_update_other)

lemma author_get_total: "\<exists>v. author_get r k = Inr v"
  by (cases "dict_get r ''author''")
     (auto simp: author_get_def method_get_def dict_get_default_present)

lemma author_get_no_dict:
  "\<not> is_dict (dict_get r ''author'') \<Longrightarrow> author_get r k = Inr JNull"
  by (simp add: author_get_def)

lemma flatten_row_cons:
  "dict_get r ''items'' = JArr (x # xs) \<Longrightarrow>
   flatten_row r = flatten_row (AList.update ''items'' (JArr [x]) r)"
  by (simp add: flatten_row_def first_item_get_cons first_item_get_update
      author_get_update_items dict_get_update_other cong: sum.case_cong)

lemma flatten_row_first_dict:
  assumes "dict_get r ''items'' = JArr (JObj d # xs)"
  shows "\<exists>flat. flatten_row r = Inr flat \<and>
           dict_get flat ''field'' = dict_get d ''field'' \<and>
           dict_get flat ''from'' = dict_get d ''fromString'' \<and>
           dict_get flat ''to'' = dict_get d ''toString''"
proof -
  obtain a where a: "author_get r ''displayName'' = Inr a"
    using author_get_total by blast
  obtain b where b: "author_get r ''accountId'' = Inr b"
    using author_get_total by blast
  show ?thesis
    using assms a b
    by (simp add: flatten_row_def first_item_get_cons method_get_def dict_get_def
        dict_get_default_def)
qed

lemma length_flatten_rows: "flatten_rows rs = Inr flat_rows \<Longrightarrow> length flat_rows = length rs"
  by (induction rs arbitrary: flat_rows) (auto split: sum.splits)

text \<open>
  The projection raises exactly when \<^verbatim>\<open>items\<close> is an empty list or a list whose first
  element is not a mapping; the author never makes it raise.
\<close>

lemma flatten_row_raises_iff:
  "(\<exists>e. flatten_row r = Inl e) \<longleftrightarrow>
   (dict_get r ''items'' = JArr [] \<or>
    (\<exists>x xs. dict_get r ''items'' = JArr (x # xs) \<and> \<not> is_dict x))"
proof -
  obtain a where a: "author_get r ''displayName'' = Inr a"
    using author_get_total by blast
  obtain b where b: "author_get r ''accountId'' = Inr b"
    using author_get_total by blast
  show ?thesis
  proof (cases "dict_get r ''items''")
    case (JArr xs)
    show ?thesis
    proof (cases xs)
      case Nil
      with JArr a b show ?thesis
        by (simp add: flatten_row_def first_item_get_def dict_get_default_present subscript0_def)
    next
      case (Cons x xs')
      with JArr a b show ?thesis
        by (cases x) (simp_all add: flatten_row_def first_item_get_cons method_get_def)
    qed
  qed (simp_all add: flatten_row_def first_item_get_def a b)
qed

text \<open>
  C4. The claim is that the projection never raises and yields null for \<^verbatim>\<open>field\<close>,
  \<^verbatim>\<open>from\<close> and \<^verbatim>\<open>to\<close> when \<^verbatim>\<open>items\<close> is an empty list. On a history entry whose
  \<^verbatim>\<open>items\<close> is \<^verbatim>\<open>[]\<close> the code raises \<^verbatim>\<open>IndexError\<close>: the default \<^verbatim>\<open>[{}]\<close> of
  \<^verbatim>\<open>r.get("items", [{}])\<close> is used only when the key is absent, and then the guard has
  already chosen \<^verbatim>\<open>None\<close>.
\<close>

theorem flatten_row_empty_items_raises:
  "flatten_row [(''created'', JStr ''2024''), (''items'', JArr []), (''issue_key'', JStr ''X-1'')] =
     Inl IndexError"
  by (simp add: flatten_row_def author_get_def first_item_get_def subscript0_def
      dict_get_def dict_get_default_def)

section \<open>Properties of the statements\<close>

text \<open>
  C3. The claim is that any table or column name is treated as one identifier. The code
  puts the name between double quotes and leaves a double quote inside the name as it is:
  the statement built for the single column \<^verbatim>\<open>a" TEXT, "b\<close> is the statement built for the
  two columns \<^verbatim>\<open>a\<close> and \<^verbatim>\<open>b\<close>, and a table name with a double quote ends the identifier
  and continues the insert statement with text of its own.
\<close>

theorem quoting_does_not_escape:
  \<open>create_table_sql ''t'' [''a" TEXT, "b''] = create_table_sql ''t'' [''a'', ''b''] \<and>
   insert_sql ''t" ("x") VALUES (1) --'' [''a''] =
     ''INSERT INTO "t" ("x") VALUES (1) --" ("a") VALUES (:a)''\<close>
  by (simp add: create_table_sql_def insert_sql_def)

section \<open>Properties of the load\<close>

lemma insert_rows_loop_failed:
  "insert_rows_loop eng table columns rows st sent = (Some e, st', sent') \<Longrightarrow>
   \<exists>pre r post. rows = pre @ r # post \<and>
     sent' = sent @ map (row_statement table columns) (pre @ [r]) \<and>
     e = StatementError"
proof (induction rows arbitrary: st sent)
  case (Cons a rows)
  show ?case
  proof (cases "execute_insert eng table (insert_sql table columns) (clean_row columns a) st")
    case None
    with Cons.prems have "sent' = sent @ map (row_statement table columns) ([] @ [a]) \<and> e = StatementError"
      by (auto simp: Let_def row_statement_def)
    then show ?thesis by blast
  next
    case (Some st1)
    with Cons.prems have "insert_rows_loop eng table columns rows st1
        (sent @ [row_statement table columns a]) = (Some e, st', sent')"
      by (simp add: Let_def row_statement_def)
    from Cons.IH [OF this] obtain pre r post where
      "rows = pre @ r # post"
      "sent' = (sent @ [row_statement table columns a]) @ map (row_statement table columns) (pre @ [r])"
      "e = StatementError"
      by blast
    then have "a # rows = (a # pre) @ r # post \<and>
        sent' = sent @ map (row_statement table columns) ((a # pre) @ [r]) \<and> e = StatementError"
      by simp
    then show ?thesis by blast
  qed
qed simp

lemma insert_rows_failed:
  assumes "insert_rows eng table columns rows w = (Some e, w')"
  shows "w_store w' = w_store w \<and> w_log w' = w_log w \<and>
    (e = ConnectionError \<and> w_sent w' = w_sent w \<or>
     e = StatementError \<and> (\<exists>pre r post. rows = pre @ r # post \<and>
        w_sent w' = w_sent w @ map (row_statement table columns) (pre @ [r])))"
proof (cases "connect_fails eng")
  case True
  with assms show ?thesis by (simp add: insert_rows_def)
next
  case False
  obtain r st sent where l: "insert_rows_loop eng table columns rows (w_store w) (w_sent w) = (r, st, sent)"
    by (metis prod_cases3)
  with assms False have r: "r = Some e" and w': "w' = w\<lparr>w_sent := sent\<rparr>"
    by (auto simp: insert_rows_def split: option.splits)
  from insert_rows_loop_failed [OF l [unfolded r]] w' show ?thesis
    by auto
qed

lemma drop_and_create_table_ok:
  "drop_and_create_table eng table columns w = (None, w1) \<Longrightarrow>
   map_of (w_store w1) table = Some \<lparr>tbl_columns = columns, tbl_rows = []\<rparr>"
  by (auto simp: drop_and_create_table_def Let_def update_conv' split: if_splits)

lemma insert_rows_loop_abort:
  assumes "map_of st table = Some t"
    and "\<forall>p \<in> set pre. \<not> rejects_insert eng (insert_sql table columns) (clean_row columns p)"
    and "rejects_insert eng (insert_sql table columns) (clean_row columns r)"
  shows "\<exists>st'. insert_rows_loop eng table columns (pre @ r # post) st sent =
           (Some StatementError, st', sent @ map (row_statement table columns) (pre @ [r]))"
  using assms
proof (induction pre arbitrary: st t sent)
  case Nil
  then show ?case
    by (simp add: execute_insert_def row_statement_def Let_def)
next
  case (Cons p pre)
  let ?st1 = "AList.update table (t\<lparr>tbl_rows := tbl_rows t @ [clean_row columns p]\<rparr>) st"
  have e: "execute_insert eng table (insert_sql table columns) (clean_row columns p) st = Some ?st1"
    using Cons.prems by (simp add: execute_insert_def)
  have m: "map_of ?st1 table = Some (t\<lparr>tbl_rows := tbl_rows t @ [clean_row columns p]\<rparr>)"
    by (simp add: update_conv')
  from Cons.IH [OF m, of "sent @ [row_statement table columns p]"] Cons.prems
  obtain st' where
    "insert_rows_loop eng table columns (pre @ r # post) ?st1 (sent @ [row_statement table columns p]) =
       (Some StatementError, st', (sent @ [row_statement table columns p]) @
          map (row_statement table columns) (pre @ [r]))"
    by auto
  with e show ?case
    by (simp add: Let_def row_statement_def)
qed

text \<open>
  C7. With a connection at hand and the table as \<open>drop_and_create_table\<close> leaves it (its
  columns, no rows): when the store accepts the rows \<open>pre\<close> and rejects the row \<open>r\<close> after
  them, \<open>insert_rows\<close> raises at \<open>r\<close>. The statements sent are those of \<open>pre\<close> and of
  \<open>r\<close>, none for the rows after \<open>r\<close>; the transaction is rolled back, so the store is
  what it was before the call and the table is still empty.
\<close>

theorem insert_rows_aborts_at_first_failure:
  assumes "\<not> connect_fails eng"
    and "map_of (w_store w) table = Some \<lparr>tbl_columns = columns, tbl_rows = []\<rparr>"
    and "\<forall>p \<in> set pre. \<not> rejects_insert eng (insert_sql table columns) (clean_row columns p)"
    and "rejects_insert eng (insert_sql table columns) (clean_row columns r)"
  shows "insert_rows eng table columns (pre @ r # post) w =
           (Some StatementError,
            w\<lparr>w_sent := w_sent w @ map (row_statement table columns) (pre @ [r])\<rparr>) \<and>
         map_of (w_store (snd (insert_rows eng table columns (pre @ r # post) w))) table =
           Some \<lparr>tbl_columns = columns, tbl_rows = []\<rparr>"
proof -
  from insert_rows_loop_abort [OF assms(2) assms(3) assms(4), of post "w_sent w"]
  obtain st' where
    "insert_rows_loop eng table columns (pre @ r # post) (w_store w) (w_sent w) =
       (Some StatementError, st', w_sent w @ map (row_statement table columns) (pre @ [r]))"
    by blast
  with assms(1) assms(2) show ?thesis
    by (simp add: insert_rows_def)
qed

text \<open>Three rows, the second rejected: two statements sent, no row stored.\<close>

theorem insert_rows_aborts_at_first_failure_witness:
  "insert_rows eng_reject_second ''t'' [''id'']
      [[(''id'', JInt 1)], [(''id'', JInt 2)], [(''id'', JInt 3)]] world_one_table =
     (Some StatementError,
      world_one_table\<lparr>w_sent :=
        [Execute (insert_sql ''t'' [''id'']) [(''id'', JInt 1)],
         Execute (insert_sql ''t'' [''id'']) [(''id'', JInt 2)]]\<rparr>) \<and>
   map_of (w_store (snd (insert_rows eng_reject_second ''t'' [''id'']
      [[(''id'', JInt 1)], [(''id'', JInt 2)], [(''id'', JInt 3)]] world_one_table))) ''t'' =
     Some \<lparr>tbl_columns = [''id''], tbl_rows = []\<rparr>"
proof -
  have c: "\<not> connect_fails eng_reject_second"
    by (simp add: eng_reject_second_def)
  have m: "map_of (w_store world_one_table) ''t'' = Some \<lparr>tbl_columns = [''id''], tbl_rows = []\<rparr>"
    by (simp add: world_one_table_def)
  have cl: "\<And>v. clean_row [''id''] [(''id'', JInt v)] = [(''id'', JInt v)]"
    by (simp add: clean_row_def bind_value_def dict_get_def dict_get_default_def)
  have p: "\<forall>p \<in> set [[(''id'', JInt 1)]].
      \<not> rejects_insert eng_reject_second (insert_sql ''t'' [''id'']) (clean_row [''id''] p)"
    by (simp add: cl eng_reject_second_def dict_get_def dict_get_default_def)
  have r: "rejects_insert eng_reject_second (insert_sql ''t'' [''id''])
      (clean_row [''id''] [(''id'', JInt 2)])"
    by (simp add: cl eng_reject_second_def dict_get_def dict_get_default_def)
  from insert_rows_aborts_at_first_failure [OF c m p r, of "[[(''id'', JInt 3)]]"]
  show ?thesis
    by (simp add: cl row_statement_def world_one_table_def)
qed

section \<open>Properties of the pipeline\<close>

lemma upload_targets_failed_append:
  "upload_targets eng ts issues w = Failed e w' \<Longrightarrow>
   upload_targets eng (ts @ ts') issues w = Failed e w'"
proof (induction ts arbitrary: issues w)
  case (Cons t ts)
  then show ?case by (cases "upload_target eng t issues w") auto
qed simp

text \<open>
  C9. When a target gathers no row, no document has been changed, the target's pass
  returns with two more log lines, the second a warning, and with the store and the
  statements sent as they were; the run goes on with the next target from there.
\<close>

theorem upload_target_skips_empty:
  assumes "gather_rows path issues = Inr ([], issues')"
  shows "issues' = issues \<and>
     upload_target eng (table, path) issues w =
       Completed issues
         (w\<lparr>w_log := w_log w @
            [Info (''Extracting dynamic table '' @ table @ '' from '' @ path),
             Warning (''No rows for '' @ table)]\<rparr>) \<and>
     upload_targets eng ((table, path) # targets) issues w =
       upload_targets eng targets issues
         (w\<lparr>w_log := w_log w @
            [Info (''Extracting dynamic table '' @ table @ '' from '' @ path),
             Warning (''No rows for '' @ table)]\<rparr>)"
proof -
  from assms have i: "issues' = issues" by (rule gather_rows_no_rows)
  with assms have u: "upload_target eng (table, path) issues w =
       Completed issues
         (w\<lparr>w_log := w_log w @
            [Info (''Extracting dynamic table '' @ table @ '' from '' @ path),
             Warning (''No rows for '' @ table)]\<rparr>)"
    by (simp add: upload_target_def add_log_def)
  from i u show ?thesis by simp
qed

text \<open>A document without subtasks: the target is skipped with a warning.\<close>

theorem upload_target_skips_empty_witness:
  "upload_target eng_accepting (''jira_subtasks'', ''fields.subtasks'') [doc_no_subtasks] world_empty =
     Completed [doc_no_subtasks]
       \<lparr>w_store = [],
        w_log = [Info ''Extracting dynamic table jira_subtasks from fields.subtasks'',
                 Warning ''No rows for jira_subtasks''],
        w_sent = []\<rparr> \<and>
   upload_targets eng_accepting [(''jira_subtasks'', ''fields.subtasks'')] [doc_no_subtasks] world_empty =
     Completed [doc_no_subtasks]
       \<lparr>w_store = [],
        w_log = [Info ''Extracting dynamic table jira_subtasks from fields.subtasks'',
                 Warning ''No rows for jira_subtasks''],
        w_sent = []\<rparr>"
proof -
  have g: "gather_rows ''fields.subtasks'' [doc_no_subtasks] = Inr ([], [doc_no_subtasks])"
    by (simp add: doc_no_subtasks_def gather_issue_def extract_path_def put_path_def dict_get_default_def)
  from upload_target_skips_empty [OF g, of eng_accepting "''jira_subtasks''" world_empty "[]"]
  show ?thesis
    by (simp add: world_empty_def)
qed

lemma gather_doc_both:
  "gather_rows ''fields.subtasks'' [doc_both] =
     Inr ([[(''id'', JStr ''10''), (''issue_key'', JStr ''X-1'')]],
          [JObj [(''key'', JStr ''X-1''),
           (''fields'', JObj [(''subtasks'', JArr [JObj [(''id'', JStr ''10''), (''issue_key'', JStr ''X-1'')]])]),
           (''changelog'', JObj [(''histories'', JArr [JObj [(''created'', JStr ''2024'')]])])]])"
  by (simp add: doc_both_def gather_issue_def extract_path_def put_path_def dict_get_default_def
      subscript_key_def)

lemma infer_doc_both:
  "infer_columns [JObj [(''id'', JStr ''10''), (''issue_key'', JStr ''X-1'')]] = [''issue_key'', ''id'']"
  by (simp add: infer_columns_def set_update_def)

text \<open>
  C2, as the specification states it, fails: the store hands out connections and rejects
  the statement that creates \<^verbatim>\<open>jira_subtasks\<close>; the run ends with that error, nothing
  is logged or stored for \<^verbatim>\<open>jira_changelog\<close>, although that target alone completes
  against the same store.
\<close>

theorem upload_dynamic_abort_counterexample:
  "outcome_error (upload_dynamic eng_reject_subtasks [doc_both] world_empty) = Some StatementError \<and>
   connect_fails eng_reject_subtasks = False \<and>
   w_log (outcome_world (upload_dynamic eng_reject_subtasks [doc_both] world_empty)) =
     [Info ''Extracting dynamic table jira_subtasks from fields.subtasks''] \<and>
   map_of (w_store (outcome_world (upload_dynamic eng_reject_subtasks [doc_both] world_empty)))
     ''jira_changelog'' = None \<and>
   outcome_error (upload_targets eng_reject_subtasks [(''jira_changelog'', ''changelog.histories'')]
     [doc_both] world_empty) = None"
proof -
  have a: "upload_dynamic eng_reject_subtasks [doc_both] world_empty =
     Failed StatementError
       (world_empty\<lparr>w_log := [Info ''Extracting dynamic table jira_subtasks from fields.subtasks''],
          w_sent := [ExecDriverSql (create_table_sql ''jira_subtasks'' [''issue_key'', ''id''])]\<rparr>)"
    by (simp add: upload_dynamic_def DYNAMIC_TABLES_def upload_target_def gather_doc_both
        infer_doc_both drop_and_create_table_def create_table_sql_def eng_reject_subtasks_def
        add_log_def world_empty_def del: gather_rows.simps)
  have g: "gather_rows ''changelog.histories'' [doc_both] =
     Inr ([[(''created'', JStr ''2024''), (''issue_key'', JStr ''X-1'')]],
          [JObj [(''key'', JStr ''X-1''),
           (''fields'', JObj [(''subtasks'', JArr [JObj [(''id'', JStr ''10'')]])]),
           (''changelog'', JObj [(''histories'',
              JArr [JObj [(''created'', JStr ''2024''), (''issue_key'', JStr ''X-1'')]])])]])"
    by (simp add: doc_both_def gather_issue_def extract_path_def put_path_def dict_get_default_def
        subscript_key_def)
  have b: "outcome_error (upload_targets eng_reject_subtasks
     [(''jira_changelog'', ''changelog.histories'')] [doc_both] world_empty) = None"
    by (simp add: upload_target_def g infer_columns_def set_update_def
        drop_and_create_table_def create_table_sql_def eng_reject_subtasks_def
        insert_rows_def execute_insert_def insert_sql_def clean_row_def bind_value_def
        upload_flat_def flatten_row_def author_get_def first_item_get_def
        dict_get_def dict_get_default_def
        add_log_def world_empty_def Let_def del: gather_rows.simps)
  from a b show ?thesis
    by (simp add: world_empty_def eng_reject_subtasks_def)
qed

text \<open>
  C2, amended. A failure raised while materializing or loading one target's table is not
  caught: whatever the error, that of a rejected statement as well as that of a failed
  connection, it ends the run at once with the world as it was when the error was raised,
  and the remaining targets are not processed.
\<close>

theorem upload_failure_aborts_run:
  assumes "gather_rows path issues = Inr (all_rows, issues')"
    and "all_rows \<noteq> []"
    and "drop_and_create_table eng table (infer_columns (map JObj all_rows))
           (add_log (Info (''Extracting dynamic table '' @ table @ '' from '' @ path)) w) = (r1, w1)"
    and "insert_rows eng table (infer_columns (map JObj all_rows)) all_rows w1 = (r2, w2)"
    and "r1 = Some e \<and> w' = w1 \<or> r1 = None \<and> r2 = Some e \<and> w' = w2"
  shows "upload_targets eng ((table, path) # targets) issues w = Failed e w'"
proof -
  from assms have "upload_target eng (table, path) issues w = Failed e w'"
    by (auto simp: upload_target_def Let_def)
  then show ?thesis by simp
qed

text \<open>The rejected creation of \<^verbatim>\<open>jira_subtasks\<close> ends a run over both targets.\<close>

theorem upload_failure_aborts_run_witness:
  \<open>upload_targets eng_reject_subtasks
      [(''jira_subtasks'', ''fields.subtasks''), (''jira_changelog'', ''changelog.histories'')]
      [doc_both] world_empty =
     Failed StatementError
       \<lparr>w_store = [],
        w_log = [Info ''Extracting dynamic table jira_subtasks from fields.subtasks''],
        w_sent = [ExecDriverSql
          ''DROP TABLE IF EXISTS "jira_subtasks"; CREATE TABLE "jira_subtasks" ("issue_key" TEXT, "id" TEXT);'']\<rparr>\<close>
proof -
  let ?w1 = \<open>\<lparr>w_store = [],
        w_log = [Info ''Extracting dynamic table jira_subtasks from fields.subtasks''],
        w_sent = [ExecDriverSql
          ''DROP TABLE IF EXISTS "jira_subtasks"; CREATE TABLE "jira_subtasks" ("issue_key" TEXT, "id" TEXT);'']\<rparr>\<close>
  let ?rows = "[[(''id'', JStr ''10''), (''issue_key'', JStr ''X-1'')]]"
  have n: "?rows \<noteq> []" by simp
  have d: "drop_and_create_table eng_reject_subtasks ''jira_subtasks'' (infer_columns (map JObj ?rows))
      (add_log (Info (''Extracting dynamic table '' @ ''jira_subtasks'' @ '' from '' @ ''fields.subtasks''))
         world_empty) = (Some StatementError, ?w1)"
    by (simp add: infer_doc_both drop_and_create_table_def create_table_sql_def eng_reject_subtasks_def
        add_log_def world_empty_def)
  obtain r2 w2 where i: "insert_rows eng_reject_subtasks ''jira_subtasks''
      (infer_columns (map JObj ?rows)) ?rows ?w1 = (r2, w2)"
    by (metis surj_pair)
  have f: "Some StatementError = Some StatementError \<and> ?w1 = ?w1 \<or>
      Some StatementError = None \<and> r2 = Some StatementError \<and> ?w1 = w2"
    by simp
  from upload_failure_aborts_run [OF gather_doc_both n d i f,
      of "[(''jira_changelog'', ''changelog.histories'')]"]
  show ?thesis .
qed

section \<open>Properties of the encoding and of the reader\<close>

lemma nat_below_16: "(k::nat) < 16 \<Longrightarrow>
  k = 0 \<or> k = 1 \<or> k = 2 \<or> k = 3 \<or> k = 4 \<or> k = 5 \<or> k = 6 \<or> k = 7 \<or>
  k = 8 \<or> k = 9 \<or> k = 10 \<or> k = 11 \<or> k = 12 \<or> k = 13 \<or> k = 14 \<or> k = 15"
  by arith

lemma hex_val_hex_digit_below: "k < 16 \<Longrightarrow> hex_val (hex_digit k) = Some k"
  by (drule nat_below_16) (elim disjE; simp add: hex_digit_def hex_val_def)

lemma hex_val_hex_digit: "hex_val (hex_digit k) = Some (k mod 16)"
proof -
  have "hex_digit k = hex_digit (k mod 16)" by (simp add: hex_digit_def)
  then show ?thesis using hex_val_hex_digit_below [of "k mod 16"] by simp
qed

lemma utf8_encode_ascii: "(of_char c :: nat) < 128 \<Longrightarrow> utf8_encode (of_char c) = [c]"
  by (simp add: utf8_encode_def)

lemma scan_string_control:
  assumes "(of_char c :: nat) < 32"
  shows "scan_string (CHR 0x5C # CHR ''u'' # hex4 (of_char c) @ t) =
           (case scan_string t of None \<Rightarrow> None | Some (s, r) \<Rightarrow> Some (c # s, r))"
proof -
  let ?n = "of_char c :: nat"
  have d: "?n div 4096 = 0" "?n div 256 = 0" using assms by simp_all
  have m: "?n div 16 mod 16 = ?n div 16" using assms by simp
  have v: "16 * (?n div 16) + ?n mod 16 = ?n" by presburger
  have u: "utf8_encode ?n = [c]" using assms by (simp add: utf8_encode_ascii)
  have h: "hex4 ?n = [hex_digit 0, hex_digit 0, hex_digit (?n div 16), hex_digit ?n]"
    by (simp add: hex4_def d)
  have z: "hex_val (hex_digit 0) = Some 0" by (simp add: hex_val_hex_digit)
  have s: "scan_string (CHR 0x5C # CHR ''u'' # hex_digit 0 # hex_digit 0 # hex_digit (?n div 16)
              # hex_digit ?n # t) =
             (case scan_string t of None \<Rightarrow> None
              | Some (s, r) \<Rightarrow> Some (utf8_encode (16 * (?n div 16) + ?n mod 16) @ s, r))"
    by (simp add: z hex_val_hex_digit m split: option.splits)
  show ?thesis
    unfolding h using s by (simp add: v u split: option.splits)
qed

lemma scan_string_escape_char:
  \<open>scan_string (escape_char c @ t) =
     (case scan_string t of None \<Rightarrow> None | Some (s, r) \<Rightarrow> Some (c # s, r))\<close>
proof (cases "escape_char c = [c]")
  case True
  then have p: \<open>c \<noteq> CHR ''"''\<close> "c \<noteq> CHR 0x5C" "\<not> (of_char c :: nat) < 32"
    by (auto simp: escape_char_def hex4_def split: if_splits)
  show ?thesis
    unfolding True using p by simp
next
  case False
  then consider (dq) \<open>c = CHR ''"''\<close> | (bs) "c = CHR 0x5C" | (n) "c = CHR 0x0A" | (r) "c = CHR 0x0D"
    | (t) "c = CHR 0x09" | (b) "c = CHR 0x08" | (f) "c = CHR 0x0C"
    | (ctl) "escape_char c = CHR 0x5C # CHR ''u'' # hex4 (of_char c)" "(of_char c :: nat) < 32"
    unfolding escape_char_def by (auto split: if_splits)
  then show ?thesis
  proof cases
    case ctl
    then show ?thesis using scan_string_control [of c t] by simp
  qed (simp_all add: escape_char_def unescape_def split: option.splits)
qed

lemma scan_string_escaped:
  \<open>scan_string (concat (map escape_char s) @ CHR ''"'' # rest) = Some (s, rest)\<close>
  by (induction s) (simp_all add: scan_string_escape_char)

lemma nat_below_10: "(k::nat) < 10 \<Longrightarrow>
  k = 0 \<or> k = 1 \<or> k = 2 \<or> k = 3 \<or> k = 4 \<or> k = 5 \<or> k = 6 \<or> k = 7 \<or> k = 8 \<or> k = 9"
  by arith

lemma digit_char_props_below:
  "k < 10 \<Longrightarrow> is_digit (digit_char k) \<and> digit_val (digit_char k) = k \<and>
     (digit_char k = CHR ''0'' \<longleftrightarrow> k = 0)"
  by (drule nat_below_10) (elim disjE; simp add: digit_char_def is_digit_def digit_val_def)

lemma digit_char_mod: "digit_char k = digit_char (k mod 10)"
  by (simp add: digit_char_def)

lemma is_digit_digit_char: "is_digit (digit_char k)"
  using digit_char_props_below [of "k mod 10"] digit_char_mod [of k] by simp

lemma digit_val_digit_char: "digit_val (digit_char k) = k mod 10"
  using digit_char_props_below [of "k mod 10"] digit_char_mod [of k] by simp

lemma digit_char_zero: "digit_char k = CHR ''0'' \<longleftrightarrow> k mod 10 = 0"
  using digit_char_props_below [of "k mod 10"] digit_char_mod [of k] by simp

declare nat_repr.simps [simp del]

lemma nat_repr_digits: "list_all is_digit (nat_repr n)"
  by (induction n rule: nat_repr.induct) (subst nat_repr.simps, simp add: is_digit_digit_char)

lemma nat_repr_nonempty: "nat_repr n \<noteq> []"
  by (subst nat_repr.simps) simp

lemma digits_val_snoc: "digits_val (ds @ [c]) = 10 * digits_val ds + digit_val c"
  by (simp add: digits_val_def)

lemma digits_val_nat_repr: "digits_val (nat_repr n) = n"
proof (induction n rule: nat_repr.induct)
  case (1 n)
  show ?case
  proof (cases "n < 10")
    case True
    then show ?thesis
      by (subst nat_repr.simps) (simp add: digits_val_def digit_val_digit_char)
  next
    case False
    with 1 have "digits_val (nat_repr (n div 10)) = n div 10" by simp
    with False show ?thesis
      by (subst nat_repr.simps) (simp add: digits_val_snoc digit_val_digit_char)
  qed
qed

lemma hd_nat_repr_zero: "hd (nat_repr n) = CHR ''0'' \<longleftrightarrow> n = 0"
proof (induction n rule: nat_repr.induct)
  case (1 n)
  show ?case
  proof (cases "n < 10")
    case True
    then show ?thesis
      by (subst nat_repr.simps) (simp add: digit_char_zero)
  next
    case False
    with 1 have "hd (nat_repr (n div 10)) = CHR ''0'' \<longleftrightarrow> n div 10 = 0" by simp
    with False show ?thesis
      by (subst nat_repr.simps) (simp add: nat_repr_nonempty)
  qed
qed

lemma takeWhile_digits:
  "list_all is_digit ds \<Longrightarrow> value_end rest \<Longrightarrow>
   takeWhile is_digit (ds @ rest) = ds \<and> dropWhile is_digit (ds @ rest) = rest"
  by (induction ds) (auto simp: value_end_def split: list.splits)

lemma value_end_no_fraction: "value_end rest \<Longrightarrow> \<not> starts_fraction rest"
  by (auto simp: value_end_def starts_fraction_def split: list.splits)

lemma parse_nat_nat_repr:
  assumes "value_end rest"
  shows "parse_nat (nat_repr n @ rest) = Some (n, rest)"
proof -
  obtain c cs where r: "nat_repr n = c # cs"
    using nat_repr_nonempty [of n] by (cases "nat_repr n") auto
  have d: "list_all is_digit (c # cs)"
    using nat_repr_digits [of n] r by simp
  have z: "c = CHR ''0'' \<longleftrightarrow> n = 0"
    using hd_nat_repr_zero [of n] r by simp
  show ?thesis
  proof (cases "n = 0")
    case True
    then have "nat_repr n = ''0''"
      by (subst nat_repr.simps) (simp add: digit_char_def)
    with assms True show ?thesis
      by (simp add: parse_nat_def is_digit_def value_end_no_fraction digits_val_def digit_val_def)
  next
    case False
    with z have nz: "c \<noteq> CHR ''0''" by simp
    from takeWhile_digits [OF d assms]
    have t: "takeWhile is_digit (c # cs @ rest) = c # cs" "dropWhile is_digit (c # cs @ rest) = rest"
      by simp_all
    have v: "digits_val (c # cs) = n"
      using digits_val_nat_repr [of n] r by simp
    from d have dc: "is_digit c" by simp
    show ?thesis
      unfolding r parse_nat_def using nz dc t v assms
      by (simp add: value_end_no_fraction del: takeWhile.simps dropWhile.simps)
  qed
qed

lemma skip_ws_start: "\<not> is_ws c \<Longrightarrow> skip_ws (c # t) = c # t"
  by (simp add: skip_ws_def)

lemma skip_ws_space: "skip_ws (CHR '' '' # s) = skip_ws s"
  by (simp add: skip_ws_def is_ws_def)

lemma parse_value_space: "parse_value n (CHR '' '' # s) = parse_value n s"
  by (cases n) (simp_all add: skip_ws_space)

lemma parse_elements_space: "parse_elements n (CHR '' '' # s) = parse_elements n s"
  by (cases n) (simp_all add: parse_value_space)

lemma parse_members_space: "parse_members n (CHR '' '' # s) = parse_members n s"
  by (cases n) (simp_all add: skip_ws_space)

lemma is_digit_not_special:
  \<open>is_digit c \<Longrightarrow> \<not> is_ws c \<and> c \<noteq> CHR ''n'' \<and> c \<noteq> CHR ''t'' \<and> c \<noteq> CHR ''f'' \<and> c \<noteq> CHR ''"'' \<and>
     c \<noteq> CHR ''['' \<and> c \<noteq> CHR '']'' \<and> c \<noteq> CHR ''{'' \<and> c \<noteq> CHR ''}'' \<and> c \<noteq> CHR ''-''\<close>
  by (auto simp: is_digit_def is_ws_def)

lemma nat_repr_cons: "\<exists>c cs. nat_repr n = c # cs \<and> is_digit c"
  using nat_repr_nonempty [of n] nat_repr_digits [of n] by (cases "nat_repr n") auto

lemma dumps_start: "\<exists>c t. dumps v = c # t \<and> value_start c"
proof (cases v)
  case (JInt i)
  obtain c cs where "nat_repr (nat \<bar>i\<bar>) = c # cs" "is_digit c"
    using nat_repr_cons by blast
  then show ?thesis
    using JInt is_digit_not_special [of c]
    by (cases "i < 0") (auto simp: int_repr_def value_start_def is_ws_def abs_if)
qed (auto simp: value_start_def is_ws_def encode_basestring_def)

lemma value_end_delims:
  "value_end (CHR '']'' # r)" "value_end (CHR ''}'' # r)" "value_end (CHR '','' # r)" "value_end []"
  by (simp_all add: value_end_def is_digit_def)

lemma parse_value_int:
  assumes "value_end rest"
  shows "parse_value (Suc n) (int_repr i @ rest) = Some (JInt i, rest)"
proof (cases "i < 0")
  case True
  have "parse_nat (nat_repr (nat (- i)) @ rest) = Some (nat (- i), rest)"
    using assms by (rule parse_nat_nat_repr)
  with True show ?thesis
    by (simp add: int_repr_def skip_ws_def is_ws_def)
next
  case False
  obtain c cs where r: "nat_repr (nat i) = c # cs" and d: "is_digit c"
    using nat_repr_cons by blast
  have p: "parse_nat (c # cs @ rest) = Some (nat i, rest)"
    using parse_nat_nat_repr [OF assms, of "nat i"] r by simp
  from False r p is_digit_not_special [OF d] show ?thesis
    by (simp add: int_repr_def skip_ws_start)
qed

lemma parse_value_scalars:
  assumes "value_end rest"
  shows "parse_value (Suc n) (dumps JNull @ rest) = Some (JNull, rest)"
    and "parse_value (Suc n) (dumps (JBool b) @ rest) = Some (JBool b, rest)"
    and "parse_value (Suc n) (dumps (JStr s) @ rest) = Some (JStr s, rest)"
    and "parse_value (Suc n) (dumps (JInt i) @ rest) = Some (JInt i, rest)"
proof -
  show "parse_value (Suc n) (dumps JNull @ rest) = Some (JNull, rest)"
    by (simp add: skip_ws_def is_ws_def)
  show "parse_value (Suc n) (dumps (JBool b) @ rest) = Some (JBool b, rest)"
    by (simp add: skip_ws_def is_ws_def)
  show "parse_value (Suc n) (dumps (JStr s) @ rest) = Some (JStr s, rest)"
    by (simp add: skip_ws_def is_ws_def encode_basestring_def scan_string_escaped)
  show "parse_value (Suc n) (dumps (JInt i) @ rest) = Some (JInt i, rest)"
    using parse_value_int [OF assms] by (simp del: parse_value.simps)
qed

lemma parse_elements_join:
  assumes "\<And>x n rest. x \<in> set xs \<Longrightarrow> fuel x \<le> n \<Longrightarrow> value_end rest \<Longrightarrow>
             parse_value n (dumps x @ rest) = Some (x, rest)"
    and "xs \<noteq> []"
    and "sum_list (map (\<lambda>x. Suc (fuel x)) xs) \<le> n"
  shows "parse_elements n (str_join '', '' (map dumps xs) @ CHR '']'' # rest) = Some (xs, rest)"
  using assms
proof (induction xs arbitrary: n)
  case Nil
  then show ?case by simp
next
  case (Cons x xs)
  from Cons.prems(3) obtain m where n: "n = Suc m" and m: "fuel x + sum_list (map (\<lambda>x. Suc (fuel x)) xs) \<le> m"
    by (cases n) auto
  show ?case
  proof (cases xs)
    case Nil
    have "parse_value m (dumps x @ CHR '']'' # rest) = Some (x, CHR '']'' # rest)"
      using m by (intro Cons.prems(1)) (simp_all add: value_end_delims)
    with Nil n show ?thesis
      by (simp add: skip_ws_def is_ws_def)
  next
    case (Cons y ys)
    let ?tail = "str_join '', '' (map dumps xs) @ CHR '']'' # rest"
    have v: "parse_value m (dumps x @ CHR '','' # CHR '' '' # ?tail) = Some (x, CHR '','' # CHR '' '' # ?tail)"
      using m by (intro Cons.prems(1)) (simp_all add: value_end_delims)
    have "parse_elements m ?tail = Some (xs, rest)"
      using m Cons Cons.prems(1) by (intro Cons.IH) simp_all
    then have t: "parse_elements m (CHR '' '' # ?tail) = Some (xs, rest)"
      by (simp add: parse_elements_space)
    have j: "str_join '', '' (map dumps (x # xs)) @ CHR '']'' # rest =
        dumps x @ CHR '','' # CHR '' '' # ?tail"
      using Cons by simp
    show ?thesis
      unfolding j n using v t by (simp add: skip_ws_def is_ws_def)
  qed
qed

lemma dumps_JObj: "dumps (JObj d) = ''{'' @ str_join '', '' (map dumps_member d) @ ''}''"
proof -
  have "(\<lambda>(k, v). encode_basestring k @ '': '' @ dumps v) = dumps_member"
    by (auto simp: dumps_member_def fun_eq_iff)
  then show ?thesis by simp
qed

lemma parse_members_join:
  assumes "\<And>k v n rest. (k, v) \<in> set d \<Longrightarrow> fuel v \<le> n \<Longrightarrow> value_end rest \<Longrightarrow>
             parse_value n (dumps v @ rest) = Some (v, rest)"
    and "d \<noteq> []"
    and "sum_list (map (\<lambda>(k, v). Suc (fuel v)) d) \<le> n"
  shows "parse_members n (str_join '', '' (map dumps_member d) @ CHR ''}'' # rest) = Some (d, rest)"
  using assms
proof (induction d arbitrary: n)
  case Nil
  then show ?case by simp
next
  case (Cons kv d)
  note prems = Cons.prems and IH = Cons.IH
  obtain k v where kv: "kv = (k, v)" by (cases kv)
  from prems(3) kv obtain m where n: "n = Suc m"
    and m: "fuel v + sum_list (map (\<lambda>(k, v). Suc (fuel v)) d) \<le> m"
    by (cases n) auto
  have key: \<open>\<And>t. scan_string (concat (map escape_char k) @ CHR ''"'' # t) = Some (k, t)\<close>
    by (rule scan_string_escaped)
  show ?case
  proof (cases d)
    case Nil
    have "parse_value m (dumps v @ CHR ''}'' # rest) = Some (v, CHR ''}'' # rest)"
      using m kv by (intro prems(1) [of k]) (simp_all add: value_end_delims)
    then have "parse_value m (CHR '' '' # dumps v @ CHR ''}'' # rest) = Some (v, CHR ''}'' # rest)"
      by (simp add: parse_value_space)
    with Nil n kv key show ?thesis
      by (simp add: dumps_member_def encode_basestring_def skip_ws_def is_ws_def
          del: parse_value.simps)
  next
    case (Cons kv' d')
    let ?tail = "str_join '', '' (map dumps_member d) @ CHR ''}'' # rest"
    have "parse_value m (dumps v @ CHR '','' # CHR '' '' # ?tail) = Some (v, CHR '','' # CHR '' '' # ?tail)"
      using m kv by (intro prems(1) [of k]) (simp_all add: value_end_delims)
    then have pv: "parse_value m (CHR '' '' # dumps v @ CHR '','' # CHR '' '' # ?tail) =
        Some (v, CHR '','' # CHR '' '' # ?tail)"
      by (simp add: parse_value_space)
    have "parse_members m ?tail = Some (d, rest)"
    proof (rule IH)
      show "\<And>k v n rest. (k, v) \<in> set d \<Longrightarrow> fuel v \<le> n \<Longrightarrow> value_end rest \<Longrightarrow>
             parse_value n (dumps v @ rest) = Some (v, rest)"
        using prems(1) by (meson list.set_intros(2))
      show "d \<noteq> []" using Cons by simp
      show "sum_list (map (\<lambda>(k, v). Suc (fuel v)) d) \<le> m" using m by simp
    qed
    then have t: "parse_members m (CHR '' '' # ?tail) = Some (d, rest)"
      by (simp add: parse_members_space)
    have j: "str_join '', '' (map dumps_member (kv # d)) @ CHR ''}'' # rest =
        dumps_member kv @ CHR '','' # CHR '' '' # ?tail"
      using Cons by simp
    show ?thesis
      unfolding j n using pv t kv key
      by (simp add: dumps_member_def encode_basestring_def skip_ws_def is_ws_def
          del: parse_value.simps)
  qed
qed

lemma update_fresh: "k \<notin> fst ` set acc \<Longrightarrow> AList.update k v acc = acc @ [(k, v)]"
  by (induction acc) auto

lemma fold_update_distinct:
  "distinct (map fst d) \<Longrightarrow> fst ` set d \<inter> fst ` set acc = {} \<Longrightarrow>
   fold (\<lambda>(k, v) d. AList.update k v d) d acc = acc @ d"
proof (induction d arbitrary: acc)
  case (Cons kv d)
  obtain k v where kv: "kv = (k, v)" by (cases kv)
  from Cons.prems kv have f: "k \<notin> fst ` set acc" by auto
  have "fold (\<lambda>(k, v) d. AList.update k v d) d (acc @ [(k, v)]) = (acc @ [(k, v)]) @ d"
    using Cons.prems kv by (intro Cons.IH) auto
  with f kv show ?case by (simp add: update_fresh)
qed simp

lemma dict_of_pairs_distinct: "distinct (map fst d) \<Longrightarrow> dict_of_pairs d = d"
  using fold_update_distinct [of d "[]"] by (simp add: dict_of_pairs_def)

lemma parse_value_dumps:
  "wf_json v \<Longrightarrow> fuel v \<le> n \<Longrightarrow> value_end rest \<Longrightarrow>
   parse_value n (dumps v @ rest) = Some (v, rest)"
proof (induction v arbitrary: n rest)
  case JNull
  then show ?case using parse_value_scalars(1) by (cases n) (simp_all del: parse_value.simps)
next
  case (JBool b)
  then show ?case using parse_value_scalars(2) by (cases n) (simp_all del: parse_value.simps)
next
  case (JInt i)
  then show ?case using parse_value_scalars(4) by (cases n) (simp_all del: parse_value.simps)
next
  case (JStr s)
  then show ?case using parse_value_scalars(3) by (cases n) (simp_all del: parse_value.simps)
next
  case (JArr xs)
  from JArr.prems(2) obtain m where n: "n = Suc m" and m: "sum_list (map (\<lambda>x. Suc (fuel x)) xs) \<le> m"
    by (cases n) auto
  show ?case
  proof (cases xs)
    case Nil
    with n show ?thesis by (simp add: skip_ws_def is_ws_def)
  next
    case (Cons y ys)
    have el: "\<And>x n rest. x \<in> set xs \<Longrightarrow> fuel x \<le> n \<Longrightarrow> value_end rest \<Longrightarrow>
             parse_value n (dumps x @ rest) = Some (x, rest)"
      using JArr.IH JArr.prems(1) by (simp add: list_all_iff)
    have pe: "parse_elements m (str_join '', '' (map dumps xs) @ CHR '']'' # rest) = Some (xs, rest)"
      using el Cons m by (intro parse_elements_join) simp_all
    obtain c t where c: "dumps y = c # t" and vs: "value_start c"
      using dumps_start by blast
    obtain u where u: "str_join '', '' (map dumps xs) @ CHR '']'' # rest = c # u"
      using Cons c by (cases ys) simp_all
    from vs have "\<not> is_ws c" "c \<noteq> CHR '']''" by (simp_all add: value_start_def)
    with pe u n show ?thesis
      by (simp add: skip_ws_def is_ws_def)
  qed
next
  case (JObj d)
  from JObj.prems(2) obtain m where n: "n = Suc m"
    and m: "sum_list (map (\<lambda>(k, v). Suc (fuel v)) d) \<le> m"
    by (cases n) auto
  from JObj.prems(1) have dist: "distinct (map fst d)" by simp
  show ?case
  proof (cases d)
    case Nil
    with n show ?thesis by (simp add: skip_ws_def is_ws_def)
  next
    case (Cons kv d')
    have el: "\<And>k v n rest. (k, v) \<in> set d \<Longrightarrow> fuel v \<le> n \<Longrightarrow> value_end rest \<Longrightarrow>
             parse_value n (dumps v @ rest) = Some (v, rest)"
    proof -
      fix k v n rest
      assume kv: "(k, v) \<in> set d" and f: "fuel v \<le> n" and e: "value_end rest"
      from kv JObj.prems(1) have "wf_json v" by (auto simp: list_all_iff)
      moreover from kv have "v \<in> Basic_BNFs.snds (k, v)" by simp
      ultimately show "parse_value n (dumps v @ rest) = Some (v, rest)"
        using JObj.IH [OF kv] f e by blast
    qed
    have pm: "parse_members m (str_join '', '' (map dumps_member d) @ CHR ''}'' # rest) = Some (d, rest)"
      using el Cons m by (intro parse_members_join) simp_all
    obtain u where u: \<open>str_join '', '' (map dumps_member d) @ CHR ''}'' # rest = CHR ''"'' # u\<close>
      using Cons by (cases d') (simp_all add: dumps_member_def encode_basestring_def)
    from pm u n dist show ?thesis
      by (simp add: dumps_JObj skip_ws_def is_ws_def dict_of_pairs_distinct del: dumps.simps)
  qed
qed

lemma length_str_join:
  "length (str_join sep xs) = sum_list (map length xs) + length sep * (length xs - 1)"
  by (induction sep xs rule: str_join.induct) simp_all

lemma fuel_le_length: "fuel v \<le> length (dumps v)"
proof (induction v)
  case (JArr xs)
  then have "sum_list (map fuel xs) \<le> sum_list (map (length \<circ> dumps) xs)"
    by (induction xs) (simp_all add: add_mono)
  moreover have "sum_list (map (\<lambda>x. Suc (fuel x)) xs) = sum_list (map fuel xs) + length xs"
    by (induction xs) simp_all
  ultimately show ?case
    by (simp add: length_str_join)
next
  case (JObj d)
  have "\<And>kv. kv \<in> set d \<Longrightarrow> fuel (snd kv) \<le> length (dumps (snd kv))"
  proof -
    fix kv assume "kv \<in> set d"
    moreover have "snd kv \<in> Basic_BNFs.snds kv" by (cases kv) simp
    ultimately show "fuel (snd kv) \<le> length (dumps (snd kv))" using JObj by blast
  qed
  then have "\<And>kv. kv \<in> set d \<Longrightarrow> fuel (snd kv) \<le> (length \<circ> dumps_member) kv"
    by (fastforce simp: dumps_member_def)
  then have "sum_list (map (\<lambda>kv. fuel (snd kv)) d) \<le> sum_list (map (length \<circ> dumps_member) d)"
    by (rule sum_list_mono)
  moreover have "sum_list (map (\<lambda>(k, v). Suc (fuel v)) d) = sum_list (map (\<lambda>kv. fuel (snd kv)) d) + length d"
    by (induction d) (simp_all add: case_prod_beta)
  ultimately show ?case
    by (simp add: dumps_JObj length_str_join del: dumps.simps)
qed (simp_all add: int_repr_def nat_repr_nonempty encode_basestring_def Suc_leI)

lemma loads_dumps: "wf_json v \<Longrightarrow> loads (dumps v) = Some v"
proof -
  assume w: "wf_json v"
  have "fuel v \<le> Suc (length (dumps v))"
    using fuel_le_length [of v] by simp
  from parse_value_dumps [OF w this value_end_delims(4)] show ?thesis
    by (simp add: loads_def skip_ws_def del: parse_value.simps)
qed

section \<open>Properties of the values bound for insertion\<close>

lemma map_of_clean_row_fold:
  "map_of (fold (\<lambda>c clean. AList.update c (f c) clean) columns acc) c =
     (if c \<in> set columns then Some (f c) else map_of acc c)"
  by (induction columns arbitrary: acc) (auto simp: update_conv')

lemma dict_get_clean_row:
  "c \<in> set columns \<Longrightarrow> dict_get (clean_row columns r) c = bind_value r c"
  by (simp add: clean_row_def dict_get_def dict_get_default_def map_of_clean_row_fold)

lemma keys_clean_row_fold:
  "distinct columns \<Longrightarrow> set columns \<inter> fst ` set acc = {} \<Longrightarrow>
   fold (\<lambda>c clean. AList.update c (f c) clean) columns acc = acc @ map (\<lambda>c. (c, f c)) columns"
proof (induction columns arbitrary: acc)
  case (Cons c columns)
  from Cons.prems have "c \<notin> fst ` set acc" by auto
  then have u: "AList.update c (f c) acc = acc @ [(c, f c)]" by (rule update_fresh)
  have "fold (\<lambda>c clean. AList.update c (f c) clean) columns (acc @ [(c, f c)]) =
      (acc @ [(c, f c)]) @ map (\<lambda>c. (c, f c)) columns"
    using Cons.prems by (intro Cons.IH) auto
  with u show ?case by simp
qed simp

lemma clean_row_distinct:
  "distinct columns \<Longrightarrow> clean_row columns r = map (\<lambda>c. (c, bind_value r c)) columns"
  using keys_clean_row_fold [of columns "[]"] by (simp add: clean_row_def)

lemma non_ascii_differs:
  "128 \<le> (of_char ch :: nat) \<Longrightarrow> (of_char ch' :: nat) < 128 \<Longrightarrow> ch \<noteq> ch'"
  by (metis not_le)

lemma escape_char_non_ascii:
  assumes "128 \<le> (of_char ch :: nat)"
  shows "escape_char ch = [ch]"
proof -
  have \<open>ch \<noteq> CHR ''"''\<close> by (rule non_ascii_differs [OF assms]) simp
  moreover have "ch \<noteq> CHR 0x5C" by (rule non_ascii_differs [OF assms]) simp
  moreover have "ch \<noteq> CHR 0x0A" by (rule non_ascii_differs [OF assms]) simp
  moreover have "ch \<noteq> CHR 0x0D" by (rule non_ascii_differs [OF assms]) simp
  moreover have "ch \<noteq> CHR 0x09" by (rule non_ascii_differs [OF assms]) simp
  moreover have "ch \<noteq> CHR 0x08" by (rule non_ascii_differs [OF assms]) simp
  moreover have "ch \<noteq> CHR 0x0C" by (rule non_ascii_differs [OF assms]) simp
  moreover have "\<not> (of_char ch :: nat) < 32" using assms by simp
  ultimately show ?thesis
    unfolding escape_char_def by (simp only: if_False)
qed

lemma encode_basestring_non_ascii:
  \<open>list_all (\<lambda>ch. 128 \<le> (of_char ch :: nat)) s \<Longrightarrow> encode_basestring s = CHR ''"'' # s @ [CHR ''"'']\<close>
  by (induction s) (simp_all add: encode_basestring_def escape_char_non_ascii)

lemma bind_value_cases:
  "bind_value r c =
     (case map_of r c of
        None \<Rightarrow> JNull
      | Some v \<Rightarrow> if is_dict v \<or> is_list v then JStr (dumps v) else v)"
  by (simp add: bind_value_def dict_get_def dict_get_default_def Let_def split: option.splits)

lemma bind_value_scalar: "\<not> is_dict (bind_value r c) \<and> \<not> is_list (bind_value r c)"
  by (auto simp: bind_value_cases split: option.splits)

text \<open>
  A load that the store accepts sends one statement per row, with the cleaned row as its
  parameters, and stores the cleaned rows.
\<close>

lemma insert_rows_loop_accepted:
  assumes "map_of st table = Some t"
    and "\<forall>r \<in> set rows. \<not> rejects_insert eng (insert_sql table columns) (clean_row columns r)"
  shows "insert_rows_loop eng table columns rows st sent =
           (None,
            AList.update table (t\<lparr>tbl_rows := tbl_rows t @ map (clean_row columns) rows\<rparr>) st,
            sent @ map (row_statement table columns) rows)"
  using assms
proof (induction rows arbitrary: st t sent)
  case Nil
  then show ?case by (simp add: update_same_value)
next
  case (Cons r rows)
  let ?t1 = "t\<lparr>tbl_rows := tbl_rows t @ [clean_row columns r]\<rparr>"
  let ?st1 = "AList.update table ?t1 st"
  have e: "execute_insert eng table (insert_sql table columns) (clean_row columns r) st = Some ?st1"
    using Cons.prems by (simp add: execute_insert_def)
  have m: "map_of ?st1 table = Some ?t1"
    by (simp add: update_conv')
  have u: "AList.update table x ?st1 = AList.update table x st" for x
    by (induction st) auto
  from Cons.IH [OF m, of "sent @ [row_statement table columns r]"] Cons.prems e
  show ?case
    by (simp add: Let_def row_statement_def u)
qed

lemma insert_rows_stores_clean_rows:
  assumes "\<not> connect_fails eng"
    and "map_of (w_store w) table = Some t"
    and "\<forall>r \<in> set rows. \<not> rejects_insert eng (insert_sql table columns) (clean_row columns r)"
  shows "insert_rows eng table columns rows w =
           (None,
            w\<lparr>w_store := AList.update table
                  (t\<lparr>tbl_rows := tbl_rows t @ map (clean_row columns) rows\<rparr>) (w_store w),
              w_sent := w_sent w @ map (row_statement table columns) rows\<rparr>)"
  using assms(1) insert_rows_loop_accepted [OF assms(2) assms(3), of "w_sent w"]
  by (simp add: insert_rows_def)

text \<open>
  Whatever the store does, the statements that \<open>insert_rows\<close> sends are those of the first
  rows of the call, each with its cleaned row as parameters; and every entry of a cleaned
  row is a column with its bound value.
\<close>

lemma insert_rows_loop_sent:
  "\<exists>k \<le> length rows.
     snd (snd (insert_rows_loop eng table columns rows st sent)) =
       sent @ map (row_statement table columns) (take k rows)"
proof (induction rows arbitrary: st sent)
  case Nil
  show ?case by simp
next
  case (Cons r rows)
  show ?case
  proof (cases "execute_insert eng table (insert_sql table columns) (clean_row columns r) st")
    case None
    then have "snd (snd (insert_rows_loop eng table columns (r # rows) st sent)) =
        sent @ map (row_statement table columns) (take 1 (r # rows))"
      by (simp add: Let_def row_statement_def)
    moreover have "1 \<le> length (r # rows)" by simp
    ultimately show ?thesis by blast
  next
    case (Some st1)
    from Cons.IH [of st1 "sent @ [row_statement table columns r]"] obtain k where
      k: "k \<le> length rows"
      and s: "snd (snd (insert_rows_loop eng table columns rows st1
                (sent @ [row_statement table columns r]))) =
              (sent @ [row_statement table columns r]) @ map (row_statement table columns) (take k rows)"
      by blast
    from Some s have "snd (snd (insert_rows_loop eng table columns (r # rows) st sent)) =
        sent @ map (row_statement table columns) (take (Suc k) (r # rows))"
      by (simp add: Let_def row_statement_def)
    moreover from k have "Suc k \<le> length (r # rows)" by simp
    ultimately show ?thesis by blast
  qed
qed

lemma insert_rows_sent:
  "\<exists>k \<le> length rows.
     w_sent (snd (insert_rows eng table columns rows w)) =
       w_sent w @ map (row_statement table columns) (take k rows)"
proof (cases "connect_fails eng")
  case True
  then have "w_sent (snd (insert_rows eng table columns rows w)) =
      w_sent w @ map (row_statement table columns) (take 0 rows)"
    by (simp add: insert_rows_def)
  then show ?thesis by blast
next
  case False
  obtain res st sent where l:
    "insert_rows_loop eng table columns rows (w_store w) (w_sent w) = (res, st, sent)"
    by (metis prod_cases3)
  with False have "w_sent (snd (insert_rows eng table columns rows w)) = sent"
    by (cases res) (simp_all add: insert_rows_def)
  with insert_rows_loop_sent [of rows eng table columns "w_store w" "w_sent w"] l
  show ?thesis by simp
qed

lemma clean_row_entries:
  "(c, v) \<in> set (clean_row columns r) \<Longrightarrow> c \<in> set columns \<and> v = bind_value r c"
proof -
  have "(c, v) \<in> set (fold (\<lambda>c clean. AList.update c (bind_value r c) clean) columns acc) \<Longrightarrow>
      (c \<in> set columns \<and> v = bind_value r c) \<or> (c, v) \<in> set acc" for acc
  proof (induction columns arbitrary: acc)
    case (Cons a columns)
    from Cons.IH [OF Cons.prems [simplified]]
    have "c \<in> set columns \<and> v = bind_value r c \<or>
        (c, v) \<in> set (AList.update a (bind_value r a) acc)" .
    moreover have "(c, v) \<in> set (AList.update a x acc) \<Longrightarrow> (c = a \<and> v = x) \<or> (c, v) \<in> set acc" for x
      by (induction acc) (auto split: if_splits)
    ultimately show ?case by auto
  qed simp
  from this [of "[]"] show "(c, v) \<in> set (clean_row columns r) \<Longrightarrow> c \<in> set columns \<and> v = bind_value r c"
    by (simp add: clean_row_def)
qed

lemma clean_row_scalar:
  "(c, v) \<in> set (clean_row columns r) \<Longrightarrow> \<not> is_dict v \<and> \<not> is_list v"
  using clean_row_entries [of c v columns r] bind_value_scalar [of r c] by auto

text \<open>
  C1. The statements that \<open>insert_rows\<close> sends to the store carry, for each row \<open>r\<close>, the
  cleaned row \<open>clean_row columns r\<close> as their parameters, and nothing else is sent; when
  the store accepts the load, these statements are sent for all rows and the cleaned rows
  are what the table then holds. Every entry of a cleaned row is a column \<open>c\<close> with
  \<open>bind_value r c\<close>: null when \<open>c\<close> is missing from \<open>r\<close>; the JSON text \<open>dumps v\<close> when the
  value \<open>v\<close> is an object or an array, and reading that text gives \<open>v\<close> back; the value
  itself otherwise. So no object and no array is ever passed to the store. The text is a
  function of the value, and characters outside ASCII are written to it as they are. The
  values are those of the type \<open>json\<close>, whose numbers are integers; reading back is
  stated for the well-formed ones, in which no mapping has a key twice.
\<close>

theorem insert_rows_binds_text:
  "(\<exists>k \<le> length rows.
      w_sent (snd (insert_rows eng table columns rows w)) =
        w_sent w @ map (\<lambda>r. Execute (insert_sql table columns) (clean_row columns r)) (take k rows)) \<and>
   (\<not> connect_fails eng \<and> map_of (w_store w) table = Some t \<and>
    (\<forall>r \<in> set rows. \<not> rejects_insert eng (insert_sql table columns) (clean_row columns r)) \<longrightarrow>
      insert_rows eng table columns rows w =
        (None,
         w\<lparr>w_store := AList.update table
               (t\<lparr>tbl_rows := tbl_rows t @ map (clean_row columns) rows\<rparr>) (w_store w),
           w_sent := w_sent w @
               map (\<lambda>r. Execute (insert_sql table columns) (clean_row columns r)) rows\<rparr>)) \<and>
   (\<forall>c' v. (c', v) \<in> set (clean_row columns r) \<longrightarrow>
      c' \<in> set columns \<and> v = bind_value r c' \<and> \<not> is_dict v \<and> \<not> is_list v) \<and>
   (c \<in> set columns \<longrightarrow> dict_get (clean_row columns r) c = bind_value r c) \<and>
   (map_of r c = None \<longrightarrow> bind_value r c = JNull) \<and>
   (\<forall>v. map_of r c = Some v \<and> (is_dict v \<or> is_list v) \<longrightarrow>
      bind_value r c = JStr (dumps v) \<and> (wf_json v \<longrightarrow> loads (dumps v) = Some v)) \<and>
   (\<forall>v. map_of r c = Some v \<and> \<not> is_dict v \<and> \<not> is_list v \<longrightarrow> bind_value r c = v) \<and>
   \<not> is_dict (bind_value r c) \<and> \<not> is_list (bind_value r c) \<and>
   (\<forall>s. list_all (\<lambda>ch. 128 \<le> (of_char ch :: nat)) s \<longrightarrow>
      dumps (JStr s) = [CHR 0x22] @ s @ [CHR 0x22])"
proof -
  have rs: "row_statement table columns = (\<lambda>r. Execute (insert_sql table columns) (clean_row columns r))"
    by (simp add: row_statement_def fun_eq_iff)
  have a: "\<exists>k \<le> length rows.
      w_sent (snd (insert_rows eng table columns rows w)) =
        w_sent w @ map (\<lambda>r. Execute (insert_sql table columns) (clean_row columns r)) (take k rows)"
    using insert_rows_sent [of rows eng table columns w] unfolding rs .
  have b: "insert_rows eng table columns rows w =
        (None,
         w\<lparr>w_store := AList.update table
               (t\<lparr>tbl_rows := tbl_rows t @ map (clean_row columns) rows\<rparr>) (w_store w),
           w_sent := w_sent w @
               map (\<lambda>r. Execute (insert_sql table columns) (clean_row columns r)) rows\<rparr>)"
    if "\<not> connect_fails eng \<and> map_of (w_store w) table = Some t \<and>
      (\<forall>r \<in> set rows. \<not> rejects_insert eng (insert_sql table columns) (clean_row columns r))"
    using that insert_rows_stores_clean_rows [of eng w table t rows columns] unfolding rs by blast
  have c: "c' \<in> set columns \<and> v = bind_value r c' \<and> \<not> is_dict v \<and> \<not> is_list v"
    if "(c', v) \<in> set (clean_row columns r)" for c' v
    using that clean_row_entries [of c' v columns r] clean_row_scalar [of c' v columns r] by blast
  have d: "dict_get (clean_row columns r) c = bind_value r c" if "c \<in> set columns"
    using that by (rule dict_get_clean_row)
  have e: "bind_value r c = JNull" if "map_of r c = None"
    using that by (simp add: bind_value_cases)
  have f: "bind_value r c = JStr (dumps v)" if "map_of r c = Some v \<and> (is_dict v \<or> is_list v)" for v
    using that by (simp add: bind_value_cases del: dumps.simps)
  have g: "loads (dumps v) = Some v" if "wf_json v" for v
    using that by (rule loads_dumps)
  have h: "bind_value r c = v" if "map_of r c = Some v \<and> \<not> is_dict v \<and> \<not> is_list v" for v
    using that by (simp add: bind_value_cases del: dumps.simps)
  have i: "\<not> is_dict (bind_value r c)" "\<not> is_list (bind_value r c)"
    using bind_value_scalar [of r c] by simp_all
  have j: "dumps (JStr s) = [CHR 0x22] @ s @ [CHR 0x22]"
    if "list_all (\<lambda>ch. 128 \<le> (of_char ch :: nat)) s" for s
    using encode_basestring_non_ascii [OF that] by simp
  from a b c d e f g h i j show ?thesis
    by (intro conjI allI impI) blast+
qed

text \<open>
  The load of one row with a nested list: the list is sent and stored as its JSON text,
  which reads back as the list; the missing column is bound as null; the two bytes of a
  non-ASCII character pass unchanged.
\<close>

lemma nat_repr_12: "nat_repr 12 = ''12''"
  by (subst nat_repr.simps, subst nat_repr.simps) (simp add: digit_char_def)

theorem insert_rows_binds_text_witness:
  \<open>insert_rows eng_accepting ''t'' [''id'', ''items'', ''author'', ''created''] [row_nested]
       world_nested_table =
     (None,
      \<lparr>w_store =
         [(''t'', \<lparr>tbl_columns = [''id'', ''items'', ''author'', ''created''],
                   tbl_rows =
                     [[(''id'', JStr ''10''),
                       (''items'', JStr ''[{"field": "status", "n": -12}, null]''),
                       (''author'', JStr ([CHR 0x7B] @ ''"displayName": "'' @
                          [CHR 0xC3, CHR 0xA9, CHR 0x22, CHR 0x7D])),
                       (''created'', JNull)]]\<rparr>)],
       w_log = [],
       w_sent =
         [Execute (insert_sql ''t'' [''id'', ''items'', ''author'', ''created''])
            [(''id'', JStr ''10''),
             (''items'', JStr ''[{"field": "status", "n": -12}, null]''),
             (''author'', JStr ([CHR 0x7B] @ ''"displayName": "'' @
                [CHR 0xC3, CHR 0xA9, CHR 0x22, CHR 0x7D])),
             (''created'', JNull)]]\<rparr>) \<and>
   loads ''[{"field": "status", "n": -12}, null]'' =
     Some (JArr [JObj [(''field'', JStr ''status''), (''n'', JInt (- 12))], JNull]) \<and>
   dumps (JStr [CHR 0xC3, CHR 0xA9]) = [CHR 0x22, CHR 0xC3, CHR 0xA9, CHR 0x22]\<close>
proof -
  let ?v = "JArr [JObj [(''field'', JStr ''status''), (''n'', JInt (- 12))], JNull]"
  let ?cols = "[''id'', ''items'', ''author'', ''created'']"
  let ?t = "\<lparr>tbl_columns = ?cols, tbl_rows = []\<rparr>"
  note inst = insert_rows_binds_text [where rows = "[row_nested]" and eng = eng_accepting
      and table = "''t''" and columns = ?cols and w = world_nested_table and t = ?t
      and r = row_nested and c = "''items''"]
  have d: \<open>dumps ?v = ''[{"field": "status", "n": -12}, null]''\<close>
    by (simp add: encode_basestring_def escape_char_def int_repr_def nat_repr_12)
  have m: "map_of row_nested ''items'' = Some ?v \<and> (is_dict ?v \<or> is_list ?v)"
    by (simp add: row_nested_def)
  have w: "wf_json ?v" by simp
  have n: "list_all (\<lambda>ch. 128 \<le> (of_char ch :: nat)) [CHR 0xC3, CHR 0xA9]" by simp
  have c: \<open>clean_row ?cols row_nested =
     [(''id'', JStr ''10''),
      (''items'', JStr ''[{"field": "status", "n": -12}, null]''),
      (''author'', JStr ([CHR 0x7B] @ ''"displayName": "'' @ [CHR 0xC3, CHR 0xA9, CHR 0x22, CHR 0x7D])),
      (''created'', JNull)]\<close>
    by (simp add: clean_row_def bind_value_def row_nested_def dict_get_def dict_get_default_def
        encode_basestring_def escape_char_def int_repr_def nat_repr_12)
  have p: "\<not> connect_fails eng_accepting \<and> map_of (w_store world_nested_table) ''t'' = Some ?t \<and>
      (\<forall>r \<in> set [row_nested].
         \<not> rejects_insert eng_accepting (insert_sql ''t'' ?cols) (clean_row ?cols r))"
    by (simp add: eng_accepting_def world_nested_table_def)
  from inst p have s: "insert_rows eng_accepting ''t'' ?cols [row_nested] world_nested_table =
        (None,
         world_nested_table\<lparr>w_store := AList.update ''t''
               (?t\<lparr>tbl_rows := tbl_rows ?t @ map (clean_row ?cols) [row_nested]\<rparr>)
               (w_store world_nested_table),
           w_sent := w_sent world_nested_table @
               map (\<lambda>r. Execute (insert_sql ''t'' ?cols) (clean_row ?cols r)) [row_nested]\<rparr>)"
    by blast
  from inst m w have l: "loads (dumps ?v) = Some ?v"
    by blast
  from inst n have e: "dumps (JStr [CHR 0xC3, CHR 0xA9]) = [CHR 0x22] @ [CHR 0xC3, CHR 0xA9] @ [CHR 0x22]"
    by blast
  from l d have l': "loads ''[{\"field\": \"status\", \"n\": -12}, null]'' = Some ?v"
    by (simp only:)
  have s': \<open>insert_rows eng_accepting ''t'' ?cols [row_nested] world_nested_table =
     (None,
      \<lparr>w_store =
         [(''t'', \<lparr>tbl_columns = ?cols,
                   tbl_rows =
                     [[(''id'', JStr ''10''),
                       (''items'', JStr ''[{"field": "status", "n": -12}, null]''),
                       (''author'', JStr ([CHR 0x7B] @ ''"displayName": "'' @
                          [CHR 0xC3, CHR 0xA9, CHR 0x22, CHR 0x7D])),
                       (''created'', JNull)]]\<rparr>)],
       w_log = [],
       w_sent =
         [Execute (insert_sql ''t'' ?cols)
            [(''id'', JStr ''10''),
             (''items'', JStr ''[{"field": "status", "n": -12}, null]''),
             (''author'', JStr ([CHR 0x7B] @ ''"displayName": "'' @
                [CHR 0xC3, CHR 0xA9, CHR 0x22, CHR 0x7D])),
             (''created'', JNull)]]\<rparr>)\<close>
    by (subst s) (simp add: c world_nested_table_def)
  from s' l' e show ?thesis
    by (simp del: dumps.simps)
qed

section \<open>Properties of the flattened table\<close>

lemma flatten_rows_pointwise:
  "flatten_rows rows = Inr flat_rows \<Longrightarrow>
   list_all2 (\<lambda>r flat. flatten_row r = Inr flat) rows flat_rows"
  by (induction rows arbitrary: flat_rows) (auto split: sum.splits)

lemma flatten_rows_replace:
  "flatten_row r = flatten_row r' \<Longrightarrow>
   flatten_rows (pre @ r # post) = flatten_rows (pre @ r' # post)"
  by (induction pre) (simp_all cong: sum.case_cong)

lemma upload_flat_replace:
  "flatten_row r = flatten_row r' \<Longrightarrow>
   upload_flat eng (pre @ r # post) w = upload_flat eng (pre @ r' # post) w"
  using flatten_rows_replace [of r r' pre post] by (simp add: upload_flat_def)

lemma flatten_row_keys: "flatten_row r = Inr flat \<Longrightarrow> map fst flat = flat_columns"
  by (auto simp: flatten_row_def flat_columns_def split: sum.splits)

lemma flatten_rows_keys:
  "flatten_rows rows = Inr (flat # flat_rows) \<Longrightarrow> map fst flat = flat_columns"
  by (cases rows) (auto split: sum.splits dest: flatten_row_keys)

lemma upload_flat_stores:
  assumes c: "\<not> connect_fails eng"
    and d: "\<not> rejects_ddl eng (create_table_sql ''jira_changelog_flat'' flat_columns)"
    and f: "flatten_rows rows = Inr flat_rows"
    and n: "flat_rows \<noteq> []"
    and a: "\<forall>flat \<in> set flat_rows.
          \<not> rejects_insert eng (insert_sql ''jira_changelog_flat'' flat_columns)
              (clean_row flat_columns flat)"
  shows "fst (upload_flat eng rows w) = None \<and>
         map_of (w_store (snd (upload_flat eng rows w))) ''jira_changelog_flat'' =
           Some \<lparr>tbl_columns = flat_columns, tbl_rows = map (clean_row flat_columns) flat_rows\<rparr>"
proof -
  from n obtain flat rest where fr: "flat_rows = flat # rest" by (cases flat_rows) auto
  with f have k: "map fst flat = flat_columns" by (auto dest: flatten_rows_keys)
  let ?t = "\<lparr>tbl_columns = flat_columns, tbl_rows = []\<rparr>"
  let ?w1 = "w\<lparr>w_sent := w_sent w @ [ExecDriverSql (create_table_sql ''jira_changelog_flat'' flat_columns)],
               w_store := AList.update ''jira_changelog_flat'' ?t (w_store w),
               w_log := w_log w @ [Info (''Created table '' @ ''jira_changelog_flat'')]\<rparr>"
  have dc: "drop_and_create_table eng ''jira_changelog_flat'' flat_columns w = (None, ?w1)"
    using c d by (simp add: drop_and_create_table_def Let_def)
  have m: "map_of (w_store ?w1) ''jira_changelog_flat'' = Some ?t"
    by (simp add: update_conv')
  from insert_rows_stores_clean_rows [OF c m a]
  have ir: "insert_rows eng ''jira_changelog_flat'' flat_columns flat_rows ?w1 =
      (None,
       ?w1\<lparr>w_store := AList.update ''jira_changelog_flat''
               (?t\<lparr>tbl_rows := tbl_rows ?t @ map (clean_row flat_columns) flat_rows\<rparr>) (w_store ?w1),
           w_sent := w_sent ?w1 @ map (row_statement ''jira_changelog_flat'' flat_columns) flat_rows\<rparr>)" .
  show ?thesis
    unfolding upload_flat_def f
    using n fr k dc ir
    by (simp add: Let_def add_log_def update_conv' del: insert_sql_def)
qed

text \<open>
  C8. For a history entry \<open>r\<close> whose \<^verbatim>\<open>items\<close> list has two or more elements, the projection
  is the one of the entry with only the first element kept. When the first element is a
  mapping, \<^verbatim>\<open>field\<close>, \<^verbatim>\<open>from\<close> and \<^verbatim>\<open>to\<close> are its \<^verbatim>\<open>field\<close>, \<^verbatim>\<open>fromString\<close> and
  \<^verbatim>\<open>toString\<close>. The flat rows are the projections of the history entries, one for each
  and in their order; the upload of the flattened table is the same, whatever the store,
  when \<open>r\<close> is replaced by \<open>r\<close> with only its first item; and when the store accepts the
  upload, the table \<^verbatim>\<open>jira_changelog_flat\<close> holds exactly the flat rows, as they are bound
  for insertion. So the later elements contribute nothing to the flattened table.
\<close>

theorem flatten_row_first_item_only:
  assumes "dict_get r ''items'' = JArr (x # y # ys)"
  shows "flatten_row r = flatten_row (AList.update ''items'' (JArr [x]) r) \<and>
         (\<forall>d. x = JObj d \<longrightarrow>
            (\<exists>flat. flatten_row r = Inr flat \<and>
               dict_get flat ''field'' = dict_get d ''field'' \<and>
               dict_get flat ''from'' = dict_get d ''fromString'' \<and>
               dict_get flat ''to'' = dict_get d ''toString'')) \<and>
         (\<forall>rows flat_rows. flatten_rows rows = Inr flat_rows \<longrightarrow>
            length flat_rows = length rows) \<and>
         (\<forall>rows flat_rows. flatten_rows rows = Inr flat_rows \<longrightarrow>
            list_all2 (\<lambda>r flat. flatten_row r = Inr flat) rows flat_rows) \<and>
         (\<forall>eng pre post w.
            upload_flat eng (pre @ r # post) w =
            upload_flat eng (pre @ AList.update ''items'' (JArr [x]) r # post) w) \<and>
         (\<forall>eng rows flat_rows w.
            \<not> connect_fails eng \<and>
            \<not> rejects_ddl eng (create_table_sql ''jira_changelog_flat'' flat_columns) \<and>
            flatten_rows rows = Inr flat_rows \<and> flat_rows \<noteq> [] \<and>
            (\<forall>flat \<in> set flat_rows.
               \<not> rejects_insert eng (insert_sql ''jira_changelog_flat'' flat_columns)
                   (clean_row flat_columns flat)) \<longrightarrow>
            fst (upload_flat eng rows w) = None \<and>
            map_of (w_store (snd (upload_flat eng rows w))) ''jira_changelog_flat'' =
              Some \<lparr>tbl_columns = flat_columns,
                     tbl_rows = map (clean_row flat_columns) flat_rows\<rparr>)"
proof -
  have a: "flatten_row r = flatten_row (AList.update ''items'' (JArr [x]) r)"
    using assms by (rule flatten_row_cons)
  have b: "\<exists>flat. flatten_row r = Inr flat \<and>
               dict_get flat ''field'' = dict_get d ''field'' \<and>
               dict_get flat ''from'' = dict_get d ''fromString'' \<and>
               dict_get flat ''to'' = dict_get d ''toString''" if "x = JObj d" for d
    using that assms flatten_row_first_dict [of r d "y # ys"] by simp
  have c: "length flat_rows = length rows" if "flatten_rows rows = Inr flat_rows" for rows flat_rows
    using that by (rule length_flatten_rows)
  have d: "list_all2 (\<lambda>r flat. flatten_row r = Inr flat) rows flat_rows"
    if "flatten_rows rows = Inr flat_rows" for rows flat_rows
    using that by (rule flatten_rows_pointwise)
  have e: "upload_flat eng (pre @ r # post) w =
            upload_flat eng (pre @ AList.update ''items'' (JArr [x]) r # post) w" for eng pre post w
    using a by (rule upload_flat_replace)
  have f: "fst (upload_flat eng rows w) = None \<and>
            map_of (w_store (snd (upload_flat eng rows w))) ''jira_changelog_flat'' =
              Some \<lparr>tbl_columns = flat_columns,
                     tbl_rows = map (clean_row flat_columns) flat_rows\<rparr>"
    if "\<not> connect_fails eng \<and>
            \<not> rejects_ddl eng (create_table_sql ''jira_changelog_flat'' flat_columns) \<and>
            flatten_rows rows = Inr flat_rows \<and> flat_rows \<noteq> [] \<and>
            (\<forall>flat \<in> set flat_rows.
               \<not> rejects_insert eng (insert_sql ''jira_changelog_flat'' flat_columns)
                   (clean_row flat_columns flat))" for eng rows flat_rows w
    using that upload_flat_stores [of eng rows flat_rows w] by blast
  from a b c d e f show ?thesis
    by (intro conjI allI impI) blast+
qed

text \<open>
  A change of status and priority at once is flattened to the change of status, and that
  one row is all the flattened table holds.
\<close>

theorem flatten_row_first_item_only_witness:
  "flatten_row history_two_items =
     Inr [(''issue_key'', JStr ''X-1''), (''author_name'', JNull), (''author_account_id'', JNull),
          (''created'', JStr ''2024''), (''field'', JStr ''status''), (''from'', JStr ''Open''),
          (''to'', JStr ''Done'')] \<and>
   flatten_row (AList.update ''items''
       (JArr [JObj [(''field'', JStr ''status''), (''fromString'', JStr ''Open''),
                    (''toString'', JStr ''Done'')]]) history_two_items) =
     flatten_row history_two_items \<and>
   fst (upload_flat eng_accepting [history_two_items] world_empty) = None \<and>
   map_of (w_store (snd (upload_flat eng_accepting [history_two_items] world_empty)))
       ''jira_changelog_flat'' =
     Some \<lparr>tbl_columns = [''issue_key'', ''author_name'', ''author_account_id'', ''created'',
                            ''field'', ''from'', ''to''],
            tbl_rows =
              [[(''issue_key'', JStr ''X-1''), (''author_name'', JNull),
                (''author_account_id'', JNull), (''created'', JStr ''2024''),
                (''field'', JStr ''status''), (''from'', JStr ''Open''), (''to'', JStr ''Done'')]]\<rparr>"
proof -
  let ?flat = "[(''issue_key'', JStr ''X-1''), (''author_name'', JNull), (''author_account_id'', JNull),
          (''created'', JStr ''2024''), (''field'', JStr ''status''), (''from'', JStr ''Open''),
          (''to'', JStr ''Done'')]"
  have i: "dict_get history_two_items ''items'' =
     JArr (JObj [(''field'', JStr ''status''), (''fromString'', JStr ''Open''),
                 (''toString'', JStr ''Done'')] #
           JObj [(''field'', JStr ''priority''), (''fromString'', JStr ''Low''),
                 (''toString'', JStr ''High'')] # [])"
    by (simp add: history_two_items_def dict_get_def dict_get_default_def)
  note inst = flatten_row_first_item_only [OF i]
  have v: "flatten_row history_two_items = Inr ?flat"
    by (simp add: history_two_items_def flatten_row_def author_get_def first_item_get_def
        subscript0_def method_get_def dict_get_def dict_get_default_def)
  have fr: "flatten_rows [history_two_items] = Inr [?flat]"
    by (simp add: v)
  have cl: "clean_row flat_columns ?flat = ?flat"
    by (simp add: clean_row_def flat_columns_def bind_value_def dict_get_def dict_get_default_def)
  have p: "\<not> connect_fails eng_accepting \<and>
      \<not> rejects_ddl eng_accepting (create_table_sql ''jira_changelog_flat'' flat_columns) \<and>
      flatten_rows [history_two_items] = Inr [?flat] \<and> [?flat] \<noteq> [] \<and>
      (\<forall>flat \<in> set [?flat].
         \<not> rejects_insert eng_accepting (insert_sql ''jira_changelog_flat'' flat_columns)
             (clean_row flat_columns flat))"
    using fr by (simp add: eng_accepting_def)
  from inst p have u: "fst (upload_flat eng_accepting [history_two_items] world_empty) = None \<and>
      map_of (w_store (snd (upload_flat eng_accepting [history_two_items] world_empty)))
        ''jira_changelog_flat'' =
      Some \<lparr>tbl_columns = flat_columns, tbl_rows = map (clean_row flat_columns) [?flat]\<rparr>"
    by blast
  from inst have a: "flatten_row history_two_items =
      flatten_row (AList.update ''items''
       (JArr [JObj [(''field'', JStr ''status''), (''fromString'', JStr ''Open''),
                    (''toString'', JStr ''Done'')]]) history_two_items)"
    by blast
  from u cl have u': "fst (upload_flat eng_accepting [history_two_items] world_empty) = None \<and>
      map_of (w_store (snd (upload_flat eng_accepting [history_two_items] world_empty)))
        ''jira_changelog_flat'' =
      Some \<lparr>tbl_columns = [''issue_key'', ''author_name'', ''author_account_id'', ''created'',
                            ''field'', ''from'', ''to''], tbl_rows = [?flat]\<rparr>"
    by (simp add: flat_columns_def)
  from v a u' show ?thesis
    by (simp only:)
qed

end
